theory Spec2Isabelle
  imports Complex_Main "HOL-Library.Word" "HOL-Library.Signed_Division"
begin

section \<open>The modular synth of ofxCX: data model\<close>

text \<open>
  The modules of namespace CX::Synth (src/src/CX_ModularSynth.h, and the later revision
  src/src/CX_Synth.h) are C++ objects that point at each other. They are modelled as a
  store: every ModuleBase object lives at an address (an index into \<open>modules\<close>), every
  ModuleParameter object at an address of its own (an index into \<open>params\<close>), and a
  pointer is the address (\<open>nullptr\<close> is \<open>None\<close>).

  \<open>double\<close> and \<open>float\<close> are modelled as \<open>real\<close>; where C++ would divide by zero
  (a NaN or an infinity, no real number) the model returns the error
  \<open>DivisionByZero\<close>. \<open>unsigned int\<close> is \<open>32 word\<close>, \<open>int\<close> is \<open>int\<close> with
  the conversion from \<open>unsigned int\<close> written out (\<open>sint\<close>).
\<close>

type_synonym addr = nat
type_synonym paddr = nat

text \<open>
  What a call can do other than return: undefined behaviour of the standard containers
  (\<open>front()\<close> of an empty vector, \<open>pop_front()\<close> of an empty deque, \<open>operator[]\<close>
  outside the bounds), an exception (\<open>std::length_error\<close>), a division by zero, and a
  pointer to no object of the store.
\<close>

datatype error =
    DanglingPointer
  | FrontOfEmptyVector
  | PopFrontOfEmptyDeque
  | IndexOutOfRange
  | DivisionByZero
  | LengthError

text \<open>
  struct ModuleControlData_t (CX_Synth.h lines 33-57; CX_ModularSynth.h lines 19-35 is
  the same struct without \<open>oversampling\<close>).
\<close>

record ModuleControlData_t =
  initialized :: bool
  sampleRate :: real
  oversampling :: "32 word"

text \<open>The default constructor: \<open>initialized(false), sampleRate(666), oversampling(1)\<close>.\<close>

definition ModuleControlData_default :: ModuleControlData_t where
  "ModuleControlData_default = \<lparr>initialized = False, sampleRate = 666, oversampling = 1\<rparr>"

text \<open>
  class ModuleParameter (CX_ModularSynth.h lines 95-142): \<open>_owner\<close>, \<open>_input\<close> and
  \<open>_data\<close>.
\<close>

record ModuleParameter =
  p_owner :: "addr option"
  p_input :: "addr option"
  p_data :: real

text \<open>
  class FIRFilter (CX_ModularSynth.h lines 504-593): \<open>_filterType\<close>, \<open>_coefCount\<close>,
  \<open>_coefficients\<close> (a vector) and \<open>_inputSamples\<close> (a deque, front first).
\<close>

datatype FilterType = LOW_PASS | HIGH_PASS | USER_DEFINED

record FIRFilter =
  filterType :: FilterType
  coefCount :: int
  coefficients :: "real list"
  inputSamples :: "real list"

text \<open>
  The classes derived from ModuleBase whose \<open>getNextSample\<close> is under src/, each with
  its own members:
  \<^item> \<open>ModuleBase\<close> itself (getNextSample returns 0);
  \<^item> \<open>TrivialGenerator valueP stepP\<close>: the addresses of its members \<open>value\<close> and
    \<open>step\<close>;
  \<^item> \<open>FunctionModule f\<close>: the user function \<open>f\<close>;
  \<^item> \<open>GenericOutput\<close> (no member);
  \<^item> \<open>FIRFilterK f\<close>: the members of a FIRFilter;
  \<^item> \<open>RCFilter v0 breakpoint\<close>: \<open>_v0\<close> and the address of its member \<open>breakpoint\<close>.
\<close>

datatype module_kind =
    ModuleBase
  | TrivialGenerator paddr paddr
  | FunctionModule "real \<Rightarrow> real"
  | GenericOutput
  | FIRFilterK FIRFilter
  | RCFilter real paddr

text \<open>
  class ModuleBase (CX_ModularSynth.h lines 39-92): \<open>_inputs\<close>, \<open>_outputs\<close>,
  \<open>_parameters\<close>, \<open>*_data\<close>, and the members of the derived class.
\<close>

record module =
  inputs :: "addr list"
  outputs :: "addr list"
  parameters :: "paddr list"
  data :: ModuleControlData_t
  kind :: module_kind

record synth =
  modules :: "module list"
  params :: "ModuleParameter list"

text \<open>
  The result of a call that may descend into other modules: \<open>None\<close> when the recursion
  bound ran out (a cycle of connections recurses without end), \<open>Some (Inl e)\<close> when
  the call ended in the error \<open>e\<close>, \<open>Some (Inr (x, s))\<close> when it returned \<open>x\<close> and left the
  store \<open>s\<close>.
\<close>

type_synonym 'a result = "(error + 'a \<times> synth) option"

definition ret :: "'a \<Rightarrow> synth \<Rightarrow> 'a result" where
  "ret x s = Some (Inr (x, s))"

definition fault :: "error \<Rightarrow> 'a result" where
  "fault e = Some (Inl e)"

definition bindR :: "'a result \<Rightarrow> ('a \<Rightarrow> synth \<Rightarrow> 'b result) \<Rightarrow> 'b result" where
  "bindR r f =
     (case r of
        None \<Rightarrow> None
      | Some (Inl e) \<Rightarrow> Some (Inl e)
      | Some (Inr (x, s)) \<Rightarrow> f x s)"

definition module_at :: "synth \<Rightarrow> addr \<Rightarrow> module option" where
  "module_at s a = (if a < length (modules s) then Some (modules s ! a) else None)"

definition param_at :: "synth \<Rightarrow> paddr \<Rightarrow> ModuleParameter option" where
  "param_at s p = (if p < length (params s) then Some (params s ! p) else None)"

definition put_module :: "addr \<Rightarrow> module \<Rightarrow> synth \<Rightarrow> synth" where
  "put_module a m s = s\<lparr>modules := (modules s)[a := m]\<rparr>"

definition put_param :: "paddr \<Rightarrow> ModuleParameter \<Rightarrow> synth \<Rightarrow> synth" where
  "put_param p q s = s\<lparr>params := (params s)[p := q]\<rparr>"

section \<open>ModuleParameter\<close>

text \<open>The constructor \<open>ModuleParameter(double d)\<close>.\<close>

definition ModuleParameter_init :: "real \<Rightarrow> ModuleParameter" where
  "ModuleParameter_init d = \<lparr>p_owner = None, p_input = None, p_data = d\<rparr>"

text \<open>\<open>double& getValue(void) { return _data; }\<close>\<close>

definition getValue :: "ModuleParameter \<Rightarrow> real" where
  "getValue q = p_data q"

text \<open>\<open>operator=(double d) { _data = d; _input = nullptr; return *this; }\<close>\<close>

definition assign :: "real \<Rightarrow> ModuleParameter \<Rightarrow> ModuleParameter" where
  "assign d q = q\<lparr>p_data := d, p_input := None\<rparr>"

text \<open>\<open>operator>>(ModuleBase& l, ModuleParameter& r) { r._input = &l; }\<close>\<close>

definition connectFrom :: "addr \<Rightarrow> ModuleParameter \<Rightarrow> ModuleParameter" where
  "connectFrom l r = r\<lparr>p_input := Some l\<rparr>"

text \<open>The same two operations on the parameter object at address \<open>p\<close> of the store.\<close>

definition assign_at :: "paddr \<Rightarrow> real \<Rightarrow> synth \<Rightarrow> unit result" where
  "assign_at p d s =
     (case param_at s p of
        None \<Rightarrow> fault DanglingPointer
      | Some q \<Rightarrow> ret () (put_param p (assign d q) s))"

definition connect_parameter :: "addr \<Rightarrow> paddr \<Rightarrow> synth \<Rightarrow> unit result" where
  "connect_parameter l r s =
     (case param_at s r of
        None \<Rightarrow> fault DanglingPointer
      | Some q \<Rightarrow> ret () (put_param r (connectFrom l q) s))"

text \<open>Reading and writing \<open>_data\<close> of the parameter at \<open>p\<close>.\<close>

definition read_data :: "paddr \<Rightarrow> synth \<Rightarrow> real result" where
  "read_data p s =
     (case param_at s p of
        None \<Rightarrow> fault DanglingPointer
      | Some q \<Rightarrow> ret (getValue q) s)"

definition write_data :: "paddr \<Rightarrow> real \<Rightarrow> synth \<Rightarrow> unit result" where
  "write_data p x s =
     (case param_at s p of
        None \<Rightarrow> fault DanglingPointer
      | Some q \<Rightarrow> ret () (put_param p (q\<lparr>p_data := x\<rparr>) s))"

text \<open>
  \<open>updateValue(void) { if (_input != nullptr) { _data = _input->getNextSample(); } }\<close>

  \<open>pull s i\<close> is the virtual call \<open>i->getNextSample()\<close> in the store \<open>s\<close>. The sample is
  written into the parameter as it is after the call.
\<close>

definition updateValue :: "(synth \<Rightarrow> addr \<Rightarrow> real result) \<Rightarrow> paddr \<Rightarrow> synth \<Rightarrow> unit result" where
  "updateValue pull p s =
     (case param_at s p of
        None \<Rightarrow> fault DanglingPointer
      | Some q \<Rightarrow>
          (case p_input q of
             None \<Rightarrow> ret () s
           | Some i \<Rightarrow> bindR (pull s i) (\<lambda>x s'. write_data p x s')))"

section \<open>getNextSample\<close>

text \<open>
  TrivialGenerator::getNextSample (CX_ModularSynth.h lines 229-233):
  \<open>value.updateValue(); value.getValue() += step; return value.getValue() - step;\<close>
\<close>

definition TrivialGenerator_getNextSample ::
  "(synth \<Rightarrow> addr \<Rightarrow> real result) \<Rightarrow> paddr \<Rightarrow> paddr \<Rightarrow> synth \<Rightarrow> real result" where
  "TrivialGenerator_getNextSample pull valueP stepP s =
     bindR (updateValue pull valueP s) (\<lambda>_ s1.
     bindR (read_data valueP s1) (\<lambda>v _.
     bindR (read_data stepP s1) (\<lambda>d _.
     bindR (write_data valueP (v + d) s1) (\<lambda>_ s2.
     bindR (read_data valueP s2) (\<lambda>v' _.
     bindR (read_data stepP s2) (\<lambda>d' _.
       ret (v' - d') s2))))))"

text \<open>
  FunctionModule::getNextSample (CX_Synth.h lines 367-373):
  \<open>double v = 0; if (_inputs.size() >= 1) { v = _inputs.front()->getNextSample(); } return f(v);\<close>
\<close>

definition FunctionModule_getNextSample ::
  "(synth \<Rightarrow> addr \<Rightarrow> real result) \<Rightarrow> module \<Rightarrow> (real \<Rightarrow> real) \<Rightarrow> synth \<Rightarrow> real result" where
  "FunctionModule_getNextSample pull m f s =
     (if length (inputs m) \<ge> 1
      then bindR (pull s (hd (inputs m))) (\<lambda>v s'. ret (f v) s')
      else ret (f 0) s)"

text \<open>
  GenericOutput::getNextSample (CX_Synth.h lines 386-395):
  \<open>if (_inputs.size() == 0) { return 0; }
  double sum = 0;
  for (unsigned int i = 0; i < _data->oversampling; i++) { sum += _inputs.front()->getNextSample(); }
  return sum / _data->oversampling;\<close>

  \<open>sumSamples pull k acc s\<close> is the loop with \<open>k\<close> iterations left and \<open>acc\<close> the
  value of \<open>sum\<close>. No getNextSample writes \<open>_inputs\<close> or \<open>_data\<close> of any module (lemma
  \<open>getNextSample_frame\<close> below), so the model reads them once, before the loop.
\<close>

fun sumSamples :: "(synth \<Rightarrow> real result) \<Rightarrow> nat \<Rightarrow> real \<Rightarrow> synth \<Rightarrow> real result" where
  "sumSamples pull 0 acc s = ret acc s"
| "sumSamples pull (Suc k) acc s = bindR (pull s) (\<lambda>x s'. sumSamples pull k (acc + x) s')"

definition GenericOutput_getNextSample ::
  "(synth \<Rightarrow> addr \<Rightarrow> real result) \<Rightarrow> module \<Rightarrow> synth \<Rightarrow> real result" where
  "GenericOutput_getNextSample pull m s =
     (if length (inputs m) = 0 then ret 0 s
      else bindR (sumSamples (\<lambda>s'. pull s' (hd (inputs m))) (unat (oversampling (data m))) 0 s)
             (\<lambda>acc s'.
                if oversampling (data m) = 0 then fault DivisionByZero
                else ret (acc / real (unat (oversampling (data m)))) s'))"

text \<open>
  FIRFilter::getNextSample (CX_ModularSynth.h lines 564-576):
  \<open>_inputSamples.pop_front();
  _inputSamples.push_back(_inputs.front()->getNextSample());
  double y_n = 0;
  for (int i = 0; i < _coefCount; i++) { y_n += _inputSamples[i] * _coefficients[i]; }
  return y_n;\<close>

  \<open>dotLoop is xs cs y\<close> is the loop over the indices \<open>is\<close> that are left;
  \<open>operator[]\<close> outside the bounds of either container is undefined behaviour.
\<close>

primrec dotLoop :: "nat list \<Rightarrow> real list \<Rightarrow> real list \<Rightarrow> real \<Rightarrow> error + real" where
  "dotLoop [] xs cs y = Inr y"
| "dotLoop (i # is) xs cs y =
     (if i < length xs \<and> i < length cs
      then dotLoop is xs cs (y + xs ! i * cs ! i)
      else Inl IndexOutOfRange)"

definition FIRFilter_getNextSample ::
  "(synth \<Rightarrow> addr \<Rightarrow> real result) \<Rightarrow> addr \<Rightarrow> synth \<Rightarrow> real result" where
  "FIRFilter_getNextSample pull a s =
     (case module_at s a of
        None \<Rightarrow> fault DanglingPointer
      | Some m \<Rightarrow>
         (case kind m of
            FIRFilterK f \<Rightarrow>
              (case inputSamples f of
                 [] \<Rightarrow> fault PopFrontOfEmptyDeque
               | oldest # newer \<Rightarrow>
                  (case inputs m of
                     [] \<Rightarrow> fault FrontOfEmptyVector
                   | i # _ \<Rightarrow>
                      bindR (pull (put_module a (m\<lparr>kind := FIRFilterK (f\<lparr>inputSamples := newer\<rparr>)\<rparr>) s) i)
                        (\<lambda>x s2.
                           (case module_at s2 a of
                              None \<Rightarrow> fault DanglingPointer
                            | Some m2 \<Rightarrow>
                               (case kind m2 of
                                  FIRFilterK f2 \<Rightarrow>
                                    (case dotLoop [0..<nat (coefCount f2)]
                                            (inputSamples f2 @ [x]) (coefficients f2) 0 of
                                       Inl e \<Rightarrow> fault e
                                     | Inr y_n \<Rightarrow>
                                         ret y_n
                                           (put_module a
                                              (m2\<lparr>kind := FIRFilterK
                                                     (f2\<lparr>inputSamples := inputSamples f2 @ [x]\<rparr>)\<rparr>) s2))
                                | _ \<Rightarrow> fault DanglingPointer)))))
          | _ \<Rightarrow> fault DanglingPointer))"

text \<open>
  Modelled from the spec: the macro \<open>PI\<close> is defined by openFrameworks, not by a file
  under src/; the spec writes it \<open>pi\<close> (\<open>2*pi*breakpoint/sampleRate\<close>).
\<close>

definition PI :: real where
  "PI = pi"

text \<open>
  RCFilter::_update (CX_ModularSynth.h lines 683-687):
  \<open>breakpoint.updateValue();
  _v0 += (v1 - _v0) * 2 * PI * breakpoint.getValue() / _data->sampleRate;
  return _v0;\<close>

  \<open>breakpoint\<close> is the address of the member, which no call changes; \<open>_v0\<close> and
  \<open>_data->sampleRate\<close> are read where the statement reads them, after
  \<open>updateValue\<close> has returned.
\<close>

definition RCFilter_update ::
  "(synth \<Rightarrow> addr \<Rightarrow> real result) \<Rightarrow> addr \<Rightarrow> paddr \<Rightarrow> real \<Rightarrow> synth \<Rightarrow> real result" where
  "RCFilter_update pull a breakpoint v1 s =
     bindR (updateValue pull breakpoint s) (\<lambda>_ s1.
     bindR (read_data breakpoint s1) (\<lambda>b _.
       (case module_at s1 a of
          None \<Rightarrow> fault DanglingPointer
        | Some m1 \<Rightarrow>
           (case kind m1 of
              RCFilter v0 breakpoint' \<Rightarrow>
                if sampleRate (data m1) = 0 then fault DivisionByZero
                else
                  ret (v0 + (v1 - v0) * 2 * PI * b / sampleRate (data m1))
                    (put_module a
                       (m1\<lparr>kind := RCFilter
                             (v0 + (v1 - v0) * 2 * PI * b / sampleRate (data m1))
                             breakpoint'\<rparr>) s1)
            | _ \<Rightarrow> fault DanglingPointer))))"

text \<open>
  RCFilter::getNextSample (CX_ModularSynth.h lines 670-675):
  \<open>if (_inputs.size() > 0) { return _update(_inputs.front()->getNextSample()); } return 0;\<close>
\<close>

definition RCFilter_getNextSample ::
  "(synth \<Rightarrow> addr \<Rightarrow> real result) \<Rightarrow> addr \<Rightarrow> module \<Rightarrow> paddr \<Rightarrow> synth \<Rightarrow> real result" where
  "RCFilter_getNextSample pull a m breakpoint s =
     (if length (inputs m) > 0
      then bindR (pull s (hd (inputs m))) (\<lambda>v1 s'. RCFilter_update pull a breakpoint v1 s')
      else ret 0 s)"

text \<open>
  The virtual call \<open>a->getNextSample()\<close>: the method of the class of the object at
  \<open>a\<close>. The first argument bounds the depth of nested calls; at depth 0 the call does
  not return (\<open>None\<close>).
\<close>

primrec getNextSample :: "nat \<Rightarrow> synth \<Rightarrow> addr \<Rightarrow> real result" where
  "getNextSample 0 s a = None"
| "getNextSample (Suc n) s a =
     (case module_at s a of
        None \<Rightarrow> fault DanglingPointer
      | Some m \<Rightarrow>
         (case kind m of
            ModuleBase \<Rightarrow> ret 0 s
          | TrivialGenerator valueP stepP \<Rightarrow>
              TrivialGenerator_getNextSample (getNextSample n) valueP stepP s
          | FunctionModule f \<Rightarrow> FunctionModule_getNextSample (getNextSample n) m f s
          | GenericOutput \<Rightarrow> GenericOutput_getNextSample (getNextSample n) m s
          | FIRFilterK f \<Rightarrow> FIRFilter_getNextSample (getNextSample n) a s
          | RCFilter v0 breakpoint \<Rightarrow> RCFilter_getNextSample (getNextSample n) a m breakpoint s))"

section \<open>FIRFilter: setup and setCutoff\<close>

text \<open>The constructor: \<open>_filterType(LOW_PASS), _coefCount(-1)\<close>, both containers empty.\<close>

definition FIRFilter_init :: FIRFilter where
  "FIRFilter_init = \<lparr>filterType = LOW_PASS, coefCount = - 1, coefficients = [], inputSamples = []\<rparr>"

text \<open>
  FIRFilter::setup(FilterType filterType, unsigned int coefficientCount)
  (CX_ModularSynth.h lines 518-526):
  \<open>if ((coefficientCount % 2) == 0) { coefficientCount++; }
  _coefCount = coefficientCount;
  _inputSamples.assign(_coefCount, 0);\<close>

  The argument \<open>filterType\<close> is not used by the body. \<open>_coefCount\<close> is an \<open>int\<close>: the
  conversion of an \<open>unsigned int\<close> above INT_MAX gives a negative number, which
  \<open>assign\<close> reads as a \<open>size_t\<close> beyond \<open>max_size()\<close> and throws
  \<open>std::length_error\<close>.
\<close>

definition FIRFilter_setup :: "FilterType \<Rightarrow> 32 word \<Rightarrow> FIRFilter \<Rightarrow> error + FIRFilter" where
  "FIRFilter_setup filterTypeArg coefficientCount f =
     (let coefficientCount' =
            (if coefficientCount mod 2 = 0 then coefficientCount + 1 else coefficientCount);
          n = sint coefficientCount'
      in if n < 0 then Inl LengthError
         else Inr (f\<lparr>coefCount := n, inputSamples := replicate (nat n) 0\<rparr>))"

text \<open>
  FIRFilter::setup(std::vector<double> coefficients) (CX_ModularSynth.h lines 530-537):
  \<open>_filterType = USER_DEFINED; _coefficients = coefficients;
  _coefCount = coefficients.size(); _inputSamples.assign(_coefCount, 0);\<close>
\<close>

definition FIRFilter_setup_coefficients :: "real list \<Rightarrow> FIRFilter \<Rightarrow> error + FIRFilter" where
  "FIRFilter_setup_coefficients cs f =
     (let n = sint (word_of_nat (length cs) :: 32 word)
      in if n < 0 then Inl LengthError
         else Inr (f\<lparr>filterType := USER_DEFINED, coefCount := n, coefficients := cs,
                     inputSamples := replicate (nat n) 0\<rparr>))"

text \<open>
  Modelled from the spec: \<open>double sinc(double x)\<close> is declared in the header (line 17)
  and its body is not under src/. The spec calls the coefficients "the sinc-based ideal
  filter formula scaled by the normalized cutoff": \<open>sin x / x\<close>. (At \<open>x = 0\<close> C++ gives a
  NaN and HOL gives 0; nothing below evaluates \<open>sinc 0\<close>.)
\<close>

definition sinc :: "real \<Rightarrow> real" where
  "sinc x = sin x / x"

text \<open>
  FIRFilter::_calcH (CX_ModularSynth.h lines 587-592):
  \<open>if (n == 0) { return omega / PI; } return omega / PI * sinc(n*omega);\<close>
\<close>

definition calcH :: "int \<Rightarrow> real \<Rightarrow> real" where
  "calcH n omega = (if n = 0 then omega / PI else omega / PI * sinc (real_of_int n * omega))"

text \<open>\<open>pow(-1, i)\<close> for an \<open>int i\<close>.\<close>

definition pow_minus_one :: "int \<Rightarrow> real" where
  "pow_minus_one i = (if even i then 1 else - 1)"

text \<open>
  The second loop of setCutoff,
  \<open>for (int i = -_coefCount / 2; i <= _coefCount / 2; i++) { _coefficients[i] *= pow(-1, i); }\<close>,
  over the values of \<open>i\<close> that are left. \<open>operator[]\<close> of a vector outside its bounds is
  undefined behaviour.
\<close>

primrec modulateLoop :: "int list \<Rightarrow> real list \<Rightarrow> error + real list" where
  "modulateLoop [] cs = Inr cs"
| "modulateLoop (i # is) cs =
     (if 0 \<le> i \<and> nat i < length cs
      then modulateLoop is (cs[nat i := cs ! nat i * pow_minus_one i])
      else Inl IndexOutOfRange)"

text \<open>
  FIRFilter::setCutoff (CX_ModularSynth.h lines 539-562); \<open>sampleRate'\<close> is
  \<open>_data->sampleRate\<close>. \<open>/\<close> on \<open>int\<close> truncates towards zero (\<open>sdiv\<close>).
  \<open>if (_filterType == USER_DEFINED) { return; }
  double omega = PI * cutoff / (_data->sampleRate / 2);
  _coefficients.clear();
  for (int i = -_coefCount / 2; i <= _coefCount / 2; i++) { _coefficients.push_back(_calcH(i, omega)); }
  if (_filterType == FilterType::HIGH_PASS) { (the second loop) }\<close>
\<close>

definition FIRFilter_setCutoff :: "real \<Rightarrow> real \<Rightarrow> FIRFilter \<Rightarrow> error + FIRFilter" where
  "FIRFilter_setCutoff sampleRate' cutoff f =
     (if filterType f = USER_DEFINED then Inr f
      else if sampleRate' / 2 = 0 then Inl DivisionByZero
      else
        (let omega = PI * cutoff / (sampleRate' / 2);
             lo = (- coefCount f) sdiv 2;
             hi = coefCount f sdiv 2;
             cs = map (\<lambda>i. calcH i omega) [lo..hi]
         in if filterType f = HIGH_PASS
            then (case modulateLoop [lo..hi] cs of
                    Inl e \<Rightarrow> Inl e
                  | Inr cs' \<Rightarrow> Inr (f\<lparr>coefficients := cs'\<rparr>))
            else Inr (f\<lparr>coefficients := cs\<rparr>)))"

section \<open>ModuleBase: setData and getData\<close>

text \<open>
  Modelled from the spec: \<open>ModuleBase::_dataSet\<close> and \<open>ModuleBase::_setDataIfNotSet\<close>
  are declared in the header (CX_ModularSynth.h lines 79-80) and their bodies are not under
  src/. Spec 4.2, configuration propagation: "if the destination side's configuration is
  uninitialized and the source side's is initialized, the destination (and transitively
  anything already connected to it as an input) adopts the source's configuration; the
  reverse also applies [...]. Equal, already-initialized configurations on both sides are
  left untouched"; spec 7: a mismatch leaves the "prior configuration in place".

  \<open>setDataIfNotSet d a s\<close>: the module at \<open>a\<close> adopts \<open>d\<close> if its own configuration
  is uninitialized. \<open>dataSet_rounds k front d s\<close>: in each of \<open>k\<close> rounds the
  uninitialized modules among \<open>front\<close> adopt \<open>d\<close>, and the modules connected to them
  (inputs and outputs) are the next round's \<open>front\<close>. A chain of distinct modules has at
  most \<open>length (modules s)\<close> members, so that many rounds reach every module a chain
  reaches. \<open>_dataSetEvent\<close> of the classes modelled here is ModuleBase's, which does
  nothing.
\<close>

definition uninitialized_at :: "synth \<Rightarrow> addr \<Rightarrow> bool" where
  "uninitialized_at s a =
     (case module_at s a of None \<Rightarrow> False | Some m \<Rightarrow> \<not> initialized (data m))"

definition setDataIfNotSet :: "ModuleControlData_t \<Rightarrow> addr \<Rightarrow> synth \<Rightarrow> synth" where
  "setDataIfNotSet d a s =
     (case module_at s a of
        None \<Rightarrow> s
      | Some m \<Rightarrow> if initialized (data m) then s else put_module a (m\<lparr>data := d\<rparr>) s)"

definition connected :: "synth \<Rightarrow> addr \<Rightarrow> addr list" where
  "connected s a = (case module_at s a of None \<Rightarrow> [] | Some m \<Rightarrow> inputs m @ outputs m)"

primrec dataSet_rounds :: "nat \<Rightarrow> addr list \<Rightarrow> ModuleControlData_t \<Rightarrow> synth \<Rightarrow> synth" where
  "dataSet_rounds 0 front d s = s"
| "dataSet_rounds (Suc k) front d s =
     dataSet_rounds k
       (concat (map (connected s) (filter (uninitialized_at s) front))) d
       (fold (setDataIfNotSet d) front s)"

definition dataSet :: "addr \<Rightarrow> synth \<Rightarrow> synth" where
  "dataSet a s =
     (case module_at s a of
        None \<Rightarrow> s
      | Some m \<Rightarrow>
          if initialized (data m)
          then dataSet_rounds (length (modules s)) (connected s a) (data m) s
          else s)"

text \<open>
  ModuleBase::setData (CX_ModularSynth.h lines 57-61):
  \<open>*_data = d; _data->initialized = true; this->_dataSet(nullptr);\<close>
\<close>

definition setData :: "ModuleControlData_t \<Rightarrow> addr \<Rightarrow> synth \<Rightarrow> unit result" where
  "setData d a s =
     (case module_at s a of
        None \<Rightarrow> fault DanglingPointer
      | Some m \<Rightarrow>
          ret () (dataSet a (put_module a (m\<lparr>data := (d\<lparr>initialized := True\<rparr>)\<rparr>) s)))"

text \<open>\<open>ModuleControlData_t getData(void) { return *_data; }\<close>\<close>

definition getData :: "addr \<Rightarrow> synth \<Rightarrow> ModuleControlData_t result" where
  "getData a s =
     (case module_at s a of
        None \<Rightarrow> fault DanglingPointer
      | Some m \<Rightarrow> ret (data m) s)"

section \<open>Callers and examples\<close>

text \<open>
  A caller that calls \<open>p.updateValue()\<close> \<open>k\<close> times in a row, and a caller that calls
  \<open>getNextSample()\<close> of one module \<open>k\<close> times in a row and keeps the samples in the
  order they came.
\<close>

fun updateValue_times :: "(synth \<Rightarrow> addr \<Rightarrow> real result) \<Rightarrow> nat \<Rightarrow> paddr \<Rightarrow> synth \<Rightarrow> unit result" where
  "updateValue_times pull 0 p s = ret () s"
| "updateValue_times pull (Suc k) p s =
     bindR (updateValue pull p s) (\<lambda>_ s'. updateValue_times pull k p s')"

fun pull_times :: "(synth \<Rightarrow> real result) \<Rightarrow> nat \<Rightarrow> synth \<Rightarrow> real list result" where
  "pull_times pull 0 s = ret [] s"
| "pull_times pull (Suc k) s =
     bindR (pull s) (\<lambda>x s'. bindR (pull_times pull k s') (\<lambda>xs s''. ret (x # xs) s''))"

text \<open>The next odd number: \<open>n\<close> itself when it is odd.\<close>

definition odd_count :: "nat \<Rightarrow> nat" where
  "odd_count n = (if even n then n + 1 else n)"

text \<open>
  The parameter at \<open>p\<close> is patched to the TrivialGenerator at \<open>g\<close>, whose members
  \<open>value\<close> (at \<open>valueP\<close>, holding \<open>v\<close>) and \<open>step\<close> (at \<open>stepP\<close>, holding 1) are not
  patched; the three parameters are three objects.
\<close>

definition ramp_setup :: "synth \<Rightarrow> paddr \<Rightarrow> addr \<Rightarrow> paddr \<Rightarrow> paddr \<Rightarrow> real \<Rightarrow> bool" where
  "ramp_setup s p g valueP stepP v =
     (case (param_at s p, module_at s g, param_at s valueP, param_at s stepP) of
        (Some q, Some m, Some qv, Some qs) \<Rightarrow>
           p_input q = Some g \<and> kind m = TrivialGenerator valueP stepP \<and>
           p_input qv = None \<and> p_data qv = v \<and>
           p_input qs = None \<and> p_data qs = 1 \<and>
           p \<noteq> valueP \<and> p \<noteq> stepP \<and> valueP \<noteq> stepP
      | _ \<Rightarrow> False)"

text \<open>The configuration a module gets from \<open>ModuleControlData_t(float sampleRate_)\<close>.\<close>

definition ModuleControlData_of :: "real \<Rightarrow> ModuleControlData_t" where
  "ModuleControlData_of sampleRate' = \<lparr>initialized = True, sampleRate = sampleRate', oversampling = 1\<rparr>"

text \<open>
  An example store. Module 0 is a TrivialGenerator (\<open>value\<close> is parameter 0, \<open>step\<close> is
  parameter 1, set to 0 and 1); module 1 is a GenericOutput fed by module 0, with
  oversampling 2; module 2 is a GenericOutput with no input; module 3 is a GenericOutput
  fed by module 0, with oversampling 0. Parameter 2 belongs to no module and is patched to
  module 0.
\<close>

definition example_synth :: synth where
  "example_synth =
     \<lparr>modules =
        [\<lparr>inputs = [], outputs = [1], parameters = [0, 1],
          data = ModuleControlData_of 48000, kind = TrivialGenerator 0 1\<rparr>,
         \<lparr>inputs = [0], outputs = [], parameters = [],
          data = (ModuleControlData_of 48000)\<lparr>oversampling := 2\<rparr>, kind = GenericOutput\<rparr>,
         \<lparr>inputs = [], outputs = [], parameters = [],
          data = ModuleControlData_default, kind = GenericOutput\<rparr>,
         \<lparr>inputs = [0], outputs = [], parameters = [],
          data = (ModuleControlData_of 48000)\<lparr>oversampling := 0\<rparr>, kind = GenericOutput\<rparr>],
      params =
        [\<lparr>p_owner = Some 0, p_input = None, p_data = 0\<rparr>,
         \<lparr>p_owner = Some 0, p_input = None, p_data = 1\<rparr>,
         \<lparr>p_owner = None, p_input = Some 0, p_data = 0\<rparr>]\<rparr>"

text \<open>
  A FIRFilter that has been set up with \<open>N\<close> coefficients: by \<open>setup(coefficients)\<close> with
  a vector of \<open>N \<ge> 1\<close> coefficients (at most INT_MAX of them, so that \<open>_coefCount\<close> is
  \<open>N\<close>), or by \<open>setup(filterType, coefficientCount)\<close> on a filter that is not USER_DEFINED
  followed by \<open>setCutoff\<close>, which fills the coefficients (\<open>N\<close> is the \<open>_coefCount\<close> that
  setup leaves); and as each later getNextSample leaves it, one sample dropped at the front
  of the history and one appended.
\<close>

inductive set_up_with :: "nat \<Rightarrow> FIRFilter \<Rightarrow> bool" where
  by_coefficients:
    "cs \<noteq> [] \<Longrightarrow> length cs < 2 ^ 31 \<Longrightarrow> FIRFilter_setup_coefficients cs f0 = Inr f
     \<Longrightarrow> set_up_with (length cs) f"
| by_cutoff:
    "filterType f0 \<noteq> USER_DEFINED
     \<Longrightarrow> FIRFilter_setup filterTypeArg coefficientCount f0 = Inr f1
     \<Longrightarrow> FIRFilter_setCutoff sampleRate' cutoff f1 = Inr f
     \<Longrightarrow> set_up_with (nat (coefCount f1)) f"
| after_sample:
    "set_up_with N f \<Longrightarrow> set_up_with N (f\<lparr>inputSamples := tl (inputSamples f) @ [x]\<rparr>)"

code_pred set_up_with .

text \<open>
  What these calls establish (lemma \<open>set_up_with_configured\<close> below): \<open>N \<ge> 1\<close>,
  \<open>_coefCount = N\<close>, \<open>N\<close> coefficients and \<open>N\<close> samples of history.
\<close>

definition FIR_configured :: "nat \<Rightarrow> FIRFilter \<Rightarrow> bool" where
  "FIR_configured N f =
     (0 < N \<and> coefCount f = int N \<and> length (coefficients f) = N \<and> length (inputSamples f) = N)"

text \<open>
  A second example store. Module 0 is a TrivialGenerator (\<open>value\<close> is parameter 0,
  holding 5; \<open>step\<close> is parameter 1, holding 2). Module 1 is an RCFilter fed by module 0,
  whose \<open>breakpoint\<close> (parameter 2) is patched to module 0 as well. Module 2 is a
  FIRFilter after \<open>setup({1, 2, 3})\<close>, fed by module 0. Module 3 is a FIRFilter after
  \<open>setup({1, 2, 3})\<close> with no input.
\<close>

definition example_filters :: synth where
  "example_filters =
     \<lparr>modules =
        [\<lparr>inputs = [], outputs = [2], parameters = [0, 1],
          data = ModuleControlData_of 48000, kind = TrivialGenerator 0 1\<rparr>,
         \<lparr>inputs = [0], outputs = [], parameters = [2],
          data = ModuleControlData_of 48000, kind = RCFilter 0 2\<rparr>,
         \<lparr>inputs = [0], outputs = [], parameters = [],
          data = ModuleControlData_of 48000,
          kind = FIRFilterK \<lparr>filterType = USER_DEFINED, coefCount = 3,
                              coefficients = [1, 2, 3], inputSamples = [0, 0, 0]\<rparr>\<rparr>,
         \<lparr>inputs = [], outputs = [], parameters = [],
          data = ModuleControlData_of 48000,
          kind = FIRFilterK \<lparr>filterType = USER_DEFINED, coefCount = 3,
                              coefficients = [1, 2, 3], inputSamples = [0, 0, 0]\<rparr>\<rparr>],
      params =
        [\<lparr>p_owner = Some 0, p_input = None, p_data = 5\<rparr>,
         \<lparr>p_owner = Some 0, p_input = None, p_data = 2\<rparr>,
         \<lparr>p_owner = Some 1, p_input = Some 0, p_data = 2000\<rparr>]\<rparr>"

text \<open>
  A third example store. Module 0 is a TrivialGenerator (\<open>value\<close> holds 5, \<open>step\<close> holds
  2). Module 1 is a FIRFilter after \<open>setup(LOW_PASS, 3)\<close> and no \<open>setCutoff\<close>, fed by
  module 0.
\<close>

definition example_unfinished :: synth where
  "example_unfinished =
     \<lparr>modules =
        [\<lparr>inputs = [], outputs = [1], parameters = [0, 1],
          data = ModuleControlData_of 48000, kind = TrivialGenerator 0 1\<rparr>,
         \<lparr>inputs = [0], outputs = [], parameters = [],
          data = ModuleControlData_of 48000,
          kind = FIRFilterK \<lparr>filterType = LOW_PASS, coefCount = 3,
                              coefficients = [], inputSamples = [0, 0, 0]\<rparr>\<rparr>],
      params =
        [\<lparr>p_owner = Some 0, p_input = None, p_data = 5\<rparr>,
         \<lparr>p_owner = Some 0, p_input = None, p_data = 2\<rparr>]\<rparr>"

section \<open>What a call leaves as it is, and whom it calls\<close>

text \<open>
  The part of a module that no getNextSample writes: everything but the history of a
  FIRFilter and \<open>_v0\<close> of an RCFilter. The shape of a store is that part of every module,
  and the owner and the patch of every parameter.
\<close>

fun kind_shape :: "module_kind \<Rightarrow> module_kind" where
  "kind_shape (FIRFilterK f) = FIRFilterK (f\<lparr>inputSamples := []\<rparr>)"
| "kind_shape (RCFilter v0 breakpoint) = RCFilter 0 breakpoint"
| "kind_shape k = k"

definition module_shape :: "module \<Rightarrow> module" where
  "module_shape m = m\<lparr>kind := kind_shape (kind m)\<rparr>"

definition shape :: "synth \<Rightarrow> module list \<times> (addr option \<times> addr option) list" where
  "shape s = (map module_shape (modules s), map (\<lambda>q. (p_owner q, p_input q)) (params s))"

text \<open>\<open>pull\<close> leaves the shape of the store as it is, whenever it returns.\<close>

definition frames :: "(synth \<Rightarrow> addr \<Rightarrow> real result) \<Rightarrow> bool" where
  "frames pull = (\<forall>s j x s'. pull s j = ret x s' \<longrightarrow> shape s' = shape s)"

text \<open>
  The modules that \<open>getNextSample\<close> of the module at \<open>a\<close> calls when it returns: the module
  patched into \<open>value\<close> for a TrivialGenerator, the first input for a FunctionModule, a
  GenericOutput and a FIRFilter, the first input and the module patched into
  \<open>breakpoint\<close> for an RCFilter that has an input.
\<close>

definition patch :: "synth \<Rightarrow> paddr \<Rightarrow> addr list" where
  "patch s p =
     (case param_at s p of
        None \<Rightarrow> []
      | Some q \<Rightarrow> (case p_input q of None \<Rightarrow> [] | Some j \<Rightarrow> [j]))"

definition callees :: "synth \<Rightarrow> addr \<Rightarrow> addr list" where
  "callees s a =
     (case module_at s a of
        None \<Rightarrow> []
      | Some m \<Rightarrow>
         (case kind m of
            ModuleBase \<Rightarrow> []
          | TrivialGenerator valueP stepP \<Rightarrow> patch s valueP
          | FunctionModule f \<Rightarrow> take 1 (inputs m)
          | GenericOutput \<Rightarrow> take 1 (inputs m)
          | FIRFilterK f \<Rightarrow> take 1 (inputs m)
          | RCFilter v0 breakpoint \<Rightarrow>
              (case inputs m of [] \<Rightarrow> [] | i # _ \<Rightarrow> i # patch s breakpoint)))"

definition calls :: "synth \<Rightarrow> (addr \<times> addr) set" where
  "calls s = {(a, c). c \<in> set (callees s a)}"

text \<open>
  \<open>shallow n s a\<close>: no chain of calls that starts at \<open>a\<close> is longer than \<open>n\<close>. A module on
  a cycle of calls is shallow for no \<open>n\<close>.
\<close>

primrec shallow :: "nat \<Rightarrow> synth \<Rightarrow> addr \<Rightarrow> bool" where
  "shallow 0 s a = False"
| "shallow (Suc n) s a = list_all (shallow n s) (callees s a)"

text \<open>
  What the proofs below show of \<open>getNextSample n\<close>: a call that returns leaves the
  shape, was made on a module that is \<open>shallow n\<close>, and has changed only modules that the
  called module reaches by calls.
\<close>

definition sound :: "nat \<Rightarrow> (synth \<Rightarrow> addr \<Rightarrow> real result) \<Rightarrow> bool" where
  "sound n pull =
     (\<forall>s j x s'. pull s j = ret x s' \<longrightarrow>
        shape s' = shape s \<and> shallow n s j \<and>
        (\<forall>b. module_at s' b \<noteq> module_at s b \<longrightarrow> (j, b) \<in> (calls s)\<^sup>*))"

section \<open>Basic facts\<close>

lemma getNextSample_0: "getNextSample 0 s a = None"
  by simp

lemma getNextSample_Suc:
  "getNextSample (Suc n) s a =
     (case module_at s a of
        None \<Rightarrow> fault DanglingPointer
      | Some m \<Rightarrow>
         (case kind m of
            ModuleBase \<Rightarrow> ret 0 s
          | TrivialGenerator valueP stepP \<Rightarrow>
              TrivialGenerator_getNextSample (getNextSample n) valueP stepP s
          | FunctionModule f \<Rightarrow> FunctionModule_getNextSample (getNextSample n) m f s
          | GenericOutput \<Rightarrow> GenericOutput_getNextSample (getNextSample n) m s
          | FIRFilterK f \<Rightarrow> FIRFilter_getNextSample (getNextSample n) a s
          | RCFilter v0 breakpoint \<Rightarrow> RCFilter_getNextSample (getNextSample n) a m breakpoint s))"
  by simp

declare getNextSample.simps [simp del]

lemma bindR_ret [simp]: "bindR (ret x s) f = f x s"
  by (simp add: bindR_def ret_def)

lemma bindR_fault [simp]: "bindR (fault e) f = fault e"
  by (simp add: bindR_def fault_def)

lemma bindR_None [simp]: "bindR None f = None"
  by (simp add: bindR_def)

lemma ret_neq [simp]: "ret x s \<noteq> fault e" "fault e \<noteq> ret x s" "ret x s \<noteq> None" "fault e \<noteq> (None :: 'a result)"
  by (simp_all add: ret_def fault_def)

lemma ret_inject [simp]: "ret x s = ret y t \<longleftrightarrow> x = y \<and> s = t"
  by (simp add: ret_def)

lemma bindR_eq_retD:
  assumes "bindR r f = ret y t"
  shows "\<exists>x s. r = ret x s \<and> f x s = ret y t"
  using assms by (auto simp: bindR_def ret_def split: option.splits sum.splits)

lemma param_at_put_param [simp]:
  "param_at (put_param p q s) p' = (if p' = p \<and> p < length (params s) then Some q else param_at s p')"
  by (simp add: param_at_def put_param_def)

lemma module_at_put_param [simp]: "module_at (put_param p q s) a = module_at s a"
  by (simp add: module_at_def put_param_def)

lemma module_at_put_module [simp]:
  "module_at (put_module a m s) b = (if b = a \<and> a < length (modules s) then Some m else module_at s b)"
  by (simp add: module_at_def put_module_def)

lemma param_at_put_module [simp]: "param_at (put_module a m s) p = param_at s p"
  by (simp add: param_at_def put_module_def)

lemma param_at_SomeD: "param_at s p = Some q \<Longrightarrow> p < length (params s) \<and> params s ! p = q"
  by (simp add: param_at_def split: if_splits)

lemma module_at_SomeD: "module_at s a = Some m \<Longrightarrow> a < length (modules s) \<and> modules s ! a = m"
  by (simp add: module_at_def split: if_splits)

section \<open>ModuleParameter: assignment and patching\<close>

lemma updateValue_unpatched:
  "param_at s p = Some q \<Longrightarrow> p_input q = None \<Longrightarrow> updateValue pull p s = ret () s"
  by (simp add: updateValue_def)

lemma updateValue_times_unpatched:
  "param_at s p = Some q \<Longrightarrow> p_input q = None \<Longrightarrow> updateValue_times pull k p s = ret () s"
  by (induction k) (simp_all add: updateValue_unpatched)

text \<open>
  Claim C7. Assigning a literal \<open>d\<close> to a ModuleParameter (\<open>operator=(d)\<close>) stores \<open>d\<close> and
  clears the patch; from then on any number \<open>k\<close> of \<open>updateValue()\<close> calls, at any call
  depth \<open>n\<close>, return and leave the whole store as the assignment left it: the stored
  value is still \<open>d\<close> and no module has advanced.
\<close>
theorem assign_clears_patch:
  assumes "param_at s p = Some q"
  shows "\<exists>s' q'. assign_at p d s = ret () s' \<and> param_at s' p = Some q' \<and>
           getValue q' = d \<and> p_input q' = None \<and>
           (\<forall>n k. updateValue_times (getNextSample n) k p s' = ret () s')"
proof -
  let ?q = "assign d q" and ?s = "put_param p (assign d q) s"
  from assms have len: "p < length (params s)" by (simp add: param_at_SomeD)
  have 1: "assign_at p d s = ret () ?s" using assms by (simp add: assign_at_def)
  have 2: "param_at ?s p = Some ?q" using len by simp
  have 3: "getValue ?q = d" "p_input ?q = None" by (simp_all add: assign_def getValue_def)
  have 4: "updateValue_times (getNextSample n) k p ?s = ret () ?s" for n k
    using 2 3(2) by (rule updateValue_times_unpatched)
  from 1 2 3 4 show ?thesis by blast
qed

text \<open>
  Claim C8. \<open>l >> r\<close> for a module \<open>l\<close> and a parameter \<open>r\<close> only sets \<open>r._input\<close> to
  \<open>l\<close> (replacing any patch that was there): the store of modules is the same, so no module
  has been pulled and no list of inputs or outputs has changed; every other parameter is
  the same; \<open>r\<close> keeps its stored value and its owner.
\<close>
theorem connect_parameter_frame:
  assumes "param_at s r = Some q"
  shows "\<exists>s'. connect_parameter l r s = ret () s' \<and>
           modules s' = modules s \<and>
           params s' = (params s)[r := q\<lparr>p_input := Some l\<rparr>] \<and>
           getValue (q\<lparr>p_input := Some l\<rparr>) = getValue q \<and>
           p_owner (q\<lparr>p_input := Some l\<rparr>) = p_owner q"
  using assms by (simp add: connect_parameter_def connectFrom_def put_param_def getValue_def)

section \<open>FIRFilter::setup\<close>

lemma sint_small:
  fixes w :: "32 word"
  assumes "unat w < 2 ^ 31"
  shows "sint w = int (unat w)"
proof -
  have "int (unat w) < int (2 ^ 31)" using assms by (simp only: of_nat_less_iff)
  then have lt: "uint w < 2 ^ 31" by simp
  have ge: "- (2 ^ 31) \<le> uint w" by (rule order_trans [of _ 0]) simp_all
  have "signed_take_bit 31 (uint w) = uint w"
    using ge lt by (rule signed_take_bit_int_eq_self)
  then have "sint w = uint w" by (simp add: sint_uint)
  then show ?thesis by simp
qed

lemma word_mod_2_even:
  fixes c :: "32 word"
  shows "c mod 2 = 0 \<longleftrightarrow> even (unat c)"
proof -
  have "unat (c mod 2) = unat c mod 2" by (simp add: unat_mod)
  then show ?thesis by (metis unat_eq_zero even_iff_mod_2_eq_zero)
qed

lemma unat_succ_small:
  fixes c :: "32 word"
  assumes "unat c < 2 ^ 31"
  shows "unat (c + 1) = unat c + 1"
proof -
  have "unat c + unat (1 :: 32 word) < 2 ^ LENGTH(32)" using assms by simp
  then have "unat (c + 1) = unat c + unat (1 :: 32 word)" by (simp only: unat_add_lem)
  then show ?thesis by simp
qed

lemma FIRFilter_setup_eq:
  assumes "sint (if coefficientCount mod 2 = 0 then coefficientCount + 1 else coefficientCount) = int k"
  shows "FIRFilter_setup filterTypeArg coefficientCount f =
           Inr (f\<lparr>coefCount := int k, inputSamples := replicate k 0\<rparr>)"
  unfolding FIRFilter_setup_def Let_def assms by simp

text \<open>
  Claim C6, amended. For \<open>FIRFilter::setup(filterType, coefficientCount)\<close> with
  \<open>coefficientCount\<close> at most INT_MAX (\<open>2^31 - 1\<close>), whatever the filter type: the filter
  uses \<open>coefficientCount + 1\<close> coefficients when \<open>coefficientCount\<close> is even and
  \<open>coefficientCount\<close> when it is odd, and the history of input samples is that many
  zeros.
\<close>
theorem setup_rounds_up_to_odd:
  assumes "unat coefficientCount < 2 ^ 31"
  shows "FIRFilter_setup filterTypeArg coefficientCount f =
           Inr (f\<lparr>coefCount := int (odd_count (unat coefficientCount)),
                  inputSamples := replicate (odd_count (unat coefficientCount)) 0\<rparr>)"
proof (cases "even (unat coefficientCount)")
  case True
  then have m: "coefficientCount mod 2 = 0" by (simp add: word_mod_2_even)
  have u: "unat (coefficientCount + 1) = unat coefficientCount + 1"
    using assms by (rule unat_succ_small)
  have "unat coefficientCount \<noteq> 2 ^ 31 - 1" using True by auto
  then have "unat (coefficientCount + 1) < 2 ^ 31" using assms u by simp
  then have "sint (coefficientCount + 1) = int (unat (coefficientCount + 1))"
    by (rule sint_small)
  then have "sint (if coefficientCount mod 2 = 0 then coefficientCount + 1 else coefficientCount)
      = int (odd_count (unat coefficientCount))"
    using True m u by (simp add: odd_count_def)
  then show ?thesis by (rule FIRFilter_setup_eq)
next
  case False
  then have m: "coefficientCount mod 2 \<noteq> 0" by (simp add: word_mod_2_even)
  have "sint coefficientCount = int (unat coefficientCount)" using assms by (rule sint_small)
  then have "sint (if coefficientCount mod 2 = 0 then coefficientCount + 1 else coefficientCount)
      = int (odd_count (unat coefficientCount))"
    using False m by (simp add: odd_count_def)
  then show ?thesis by (rule FIRFilter_setup_eq)
qed

theorem setup_rounds_up_to_odd_witness:
  "unat (4 :: 32 word) < 2 ^ 31 \<and>
   FIRFilter_setup HIGH_PASS 4 FIRFilter_init =
     Inr \<lparr>filterType = LOW_PASS, coefCount = 5, coefficients = [], inputSamples = [0, 0, 0, 0, 0]\<rparr>"
proof -
  have h: "unat (4 :: 32 word) < 2 ^ 31" by simp
  have five: "odd_count (unat (4 :: 32 word)) = 5" by (simp add: odd_count_def)
  have zeros: "replicate 5 (0 :: real) = [0, 0, 0, 0, 0]" by (simp add: numeral_eq_Suc)
  have "FIRFilter_setup HIGH_PASS 4 FIRFilter_init =
      Inr (FIRFilter_init\<lparr>coefCount := int 5, inputSamples := replicate 5 0\<rparr>)"
    using setup_rounds_up_to_odd [OF h, of HIGH_PASS FIRFilter_init] unfolding five .
  then show ?thesis using h unfolding zeros by (simp add: FIRFilter_init_def)
qed

text \<open>
  Claim C6 as stated ("for every call") fails at \<open>coefficientCount = 2^31\<close>: the count
  \<open>2^31 + 1\<close> is negative as an \<open>int\<close>, and \<open>assign\<close> throws; there is no history of
  \<open>2^31 + 1\<close> zeros.
\<close>
theorem setup_large_count_counterexample:
  "FIRFilter_setup LOW_PASS 2147483648 FIRFilter_init = Inl LengthError"
  by (simp add: FIRFilter_setup_def)

section \<open>ModuleBase::setData\<close>

lemma setDataIfNotSet_keeps:
  assumes "module_at s b = Some m" "initialized (data m)"
  shows "module_at (setDataIfNotSet d a s) b = Some m"
  using assms by (auto simp: setDataIfNotSet_def split: option.splits)

lemma fold_setDataIfNotSet_keeps:
  assumes "module_at s b = Some m" "initialized (data m)"
  shows "module_at (fold (setDataIfNotSet d) front s) b = Some m"
  using assms by (induction front arbitrary: s) (simp_all add: setDataIfNotSet_keeps)

lemma dataSet_rounds_keeps:
  assumes "module_at s b = Some m" "initialized (data m)"
  shows "module_at (dataSet_rounds k front d s) b = Some m"
  using assms
proof (induction k arbitrary: front s)
  case 0
  then show ?case by simp
next
  case (Suc k)
  have "module_at (fold (setDataIfNotSet d) front s) b = Some m"
    using Suc.prems by (rule fold_setDataIfNotSet_keeps)
  then show ?case using Suc.prems(2) by (simp add: Suc.IH)
qed

lemma dataSet_keeps:
  assumes "module_at s b = Some m" "initialized (data m)"
  shows "module_at (dataSet a s) b = Some m"
  using assms by (simp add: dataSet_def dataSet_rounds_keeps split: option.splits)

text \<open>
  Claim C9. After \<open>setData(d)\<close> on a module, \<open>getData()\<close> of that module is initialized
  and has the sample rate (and the oversampling) of \<open>d\<close>, whatever \<open>d.initialized\<close> was.
\<close>
theorem setData_marks_initialized:
  assumes "module_at s a = Some m"
  shows "\<exists>s' d'. setData d a s = ret () s' \<and> getData a s' = ret d' s' \<and>
           initialized d' = True \<and> sampleRate d' = sampleRate d \<and>
           oversampling d' = oversampling d"
proof -
  let ?m = "m\<lparr>data := (d\<lparr>initialized := True\<rparr>)\<rparr>"
  let ?s' = "dataSet a (put_module a ?m s)"
  from assms have len: "a < length (modules s)" by (simp add: module_at_SomeD)
  have 1: "setData d a s = ret () ?s'" using assms by (simp add: setData_def)
  have "module_at (put_module a ?m s) a = Some ?m" using len by simp
  moreover have "initialized (data ?m)" by simp
  ultimately have "module_at ?s' a = Some ?m" by (rule dataSet_keeps)
  then have 2: "getData a ?s' = ret (d\<lparr>initialized := True\<rparr>) ?s'" by (simp add: getData_def)
  show ?thesis using 1 2 by (intro exI [of _ ?s'] exI [of _ "d\<lparr>initialized := True\<rparr>"]) simp
qed

section \<open>GenericOutput\<close>

lemma sumSamples_pull_times:
  assumes "pull_times pull k s = ret xs s'"
  shows "sumSamples pull k acc s = ret (acc + sum_list xs) s' \<and> length xs = k"
  using assms
proof (induction k arbitrary: s acc xs s')
  case 0
  then show ?case by simp
next
  case (Suc k)
  from Suc.prems obtain x s1 where p1: "pull s = ret x s1"
    and r1: "bindR (pull_times pull k s1) (\<lambda>xs s''. ret (x # xs) s'') = ret xs s'"
    by (auto dest: bindR_eq_retD)
  from r1 obtain ys s2 where p2: "pull_times pull k s1 = ret ys s2" and r2: "ret (x # ys) s2 = ret xs s'"
    by (auto dest: bindR_eq_retD)
  from r2 have xs: "xs = x # ys" and s': "s' = s2" by simp_all
  from Suc.IH [OF p2, of "acc + x"] show ?case using p1 xs s' by (simp add: add.assoc)
qed

lemma getNextSample_GenericOutput:
  assumes "module_at s a = Some m" "kind m = GenericOutput"
  shows "getNextSample (Suc n) s a = GenericOutput_getNextSample (getNextSample n) m s"
  using assms by (simp add: getNextSample_Suc)

text \<open>
  Claim C10. A GenericOutput with no input returns 0 and leaves the store as it is. With
  an input \<open>i\<close> and oversampling \<open>k \<ge> 1\<close>: when \<open>k\<close> successive pulls of \<open>i\<close> return the
  samples \<open>xs\<close> and leave the store \<open>s'\<close>, getNextSample returns their arithmetic mean and
  leaves \<open>s'\<close>: the input has been pulled exactly \<open>k\<close> times. With an input and
  oversampling 0 the division is by zero.
\<close>
theorem GenericOutput_mean_of_pulls:
  assumes "module_at s a = Some m" and "kind m = GenericOutput"
  shows "(inputs m = [] \<longrightarrow> getNextSample (Suc n) s a = ret 0 s) \<and>
         (\<forall>i rest xs s'. inputs m = i # rest \<and> 1 \<le> unat (oversampling (data m)) \<and>
             pull_times (\<lambda>t. getNextSample n t i) (unat (oversampling (data m))) s = ret xs s'
           \<longrightarrow> getNextSample (Suc n) s a = ret (sum_list xs / real (unat (oversampling (data m)))) s'
               \<and> length xs = unat (oversampling (data m))) \<and>
         (\<forall>i rest. inputs m = i # rest \<and> oversampling (data m) = 0
           \<longrightarrow> getNextSample (Suc n) s a = fault DivisionByZero)"
proof (intro conjI allI impI)
  assume "inputs m = []"
  then show "getNextSample (Suc n) s a = ret 0 s"
    using assms by (simp add: getNextSample_Suc GenericOutput_getNextSample_def)
next
  fix i rest xs s'
  assume h: "inputs m = i # rest \<and> 1 \<le> unat (oversampling (data m)) \<and>
    pull_times (\<lambda>t. getNextSample n t i) (unat (oversampling (data m))) s = ret xs s'"
  then have nz: "oversampling (data m) \<noteq> 0" by (auto simp: unat_eq_zero)
  from h have "sumSamples (\<lambda>t. getNextSample n t i) (unat (oversampling (data m))) 0 s
      = ret (0 + sum_list xs) s' \<and> length xs = unat (oversampling (data m))"
    by (intro sumSamples_pull_times) simp
  then show "getNextSample (Suc n) s a = ret (sum_list xs / real (unat (oversampling (data m)))) s'"
    and "length xs = unat (oversampling (data m))"
    using assms h nz by (simp_all add: getNextSample_Suc GenericOutput_getNextSample_def)
next
  fix i rest
  assume h: "inputs m = i # rest \<and> oversampling (data m) = 0"
  then show "getNextSample (Suc n) s a = fault DivisionByZero"
    using assms by (simp add: getNextSample_Suc GenericOutput_getNextSample_def)
qed

section \<open>A parameter patched to a TrivialGenerator\<close>

lemma ramp_setupD:
  assumes "ramp_setup s p g valueP stepP v"
  obtains q m qv qs where "param_at s p = Some q" "module_at s g = Some m"
    "param_at s valueP = Some qv" "param_at s stepP = Some qs"
    "p_input q = Some g" "kind m = TrivialGenerator valueP stepP"
    "p_input qv = None" "p_data qv = v" "p_input qs = None" "p_data qs = 1"
    "p \<noteq> valueP" "p \<noteq> stepP" "valueP \<noteq> stepP"
  using assms by (auto simp: ramp_setup_def split: option.splits)

lemma TrivialGenerator_step:
  assumes "module_at s g = Some m" "kind m = TrivialGenerator valueP stepP"
    "param_at s valueP = Some qv" "param_at s stepP = Some qs"
    "p_input qv = None" "valueP \<noteq> stepP"
  shows "getNextSample (Suc n) s g =
           ret (p_data qv) (put_param valueP (qv\<lparr>p_data := p_data qv + p_data qs\<rparr>) s)"
proof -
  from assms(3) have len: "valueP < length (params s)" by (simp add: param_at_SomeD)
  have u: "updateValue (getNextSample n) valueP s = ret () s"
    using assms(3,5) by (rule updateValue_unpatched)
  show ?thesis
    using assms len
    by (simp add: getNextSample_Suc TrivialGenerator_getNextSample_def u read_data_def
        write_data_def getValue_def)
qed

lemma ramp_step:
  assumes "ramp_setup s p g valueP stepP v"
  shows "\<exists>s' q'. updateValue (getNextSample (Suc n)) p s = ret () s' \<and>
           param_at s' p = Some q' \<and> getValue q' = v \<and>
           ramp_setup s' p g valueP stepP (v + 1)"
proof -
  from assms obtain q m qv qs where f: "param_at s p = Some q" "module_at s g = Some m"
    "param_at s valueP = Some qv" "param_at s stepP = Some qs"
    "p_input q = Some g" "kind m = TrivialGenerator valueP stepP"
    "p_input qv = None" "p_data qv = v" "p_input qs = None" "p_data qs = 1"
    "p \<noteq> valueP" "p \<noteq> stepP" "valueP \<noteq> stepP"
    by (rule ramp_setupD)
  let ?s1 = "put_param valueP (qv\<lparr>p_data := v + 1\<rparr>) s"
  let ?s2 = "put_param p (q\<lparr>p_data := v\<rparr>) ?s1"
  have g: "getNextSample (Suc n) s g = ret v ?s1"
    using TrivialGenerator_step [OF f(2) f(6) f(3) f(4) f(7) f(13), of n] f(8,10) by simp
  from f(1,3) have len: "p < length (params s)" "valueP < length (params s)"
    by (simp_all add: param_at_SomeD)
  have len1: "p < length (params ?s1)" using len by (simp add: put_param_def)
  have u: "updateValue (getNextSample (Suc n)) p s = ret () ?s2"
    using f(1,5,11) g len by (simp add: updateValue_def write_data_def)
  have p': "param_at ?s2 p = Some (q\<lparr>p_data := v\<rparr>)"
    using len1 by simp
  have r: "ramp_setup ?s2 p g valueP stepP (v + 1)"
    using f len len1 by (simp add: ramp_setup_def)
  show ?thesis using u p' r by (auto simp: getValue_def)
qed

lemma ramp_times:
  assumes "ramp_setup s p g valueP stepP v"
  shows "\<exists>s' q'. updateValue_times (getNextSample (Suc n)) (Suc k) p s = ret () s' \<and>
           param_at s' p = Some q' \<and> getValue q' = v + real k \<and>
           ramp_setup s' p g valueP stepP (v + real (Suc k))"
  using assms
proof (induction k arbitrary: s v)
  case 0
  from ramp_step [OF 0, of n] obtain s' q' where
    "updateValue (getNextSample (Suc n)) p s = ret () s'" "param_at s' p = Some q'"
    "getValue q' = v" "ramp_setup s' p g valueP stepP (v + 1)" by blast
  then show ?case by simp
next
  case (Suc k)
  from ramp_step [OF Suc.prems, of n] obtain s1 where
    u: "updateValue (getNextSample (Suc n)) p s = ret () s1" and
    r: "ramp_setup s1 p g valueP stepP (v + 1)" by blast
  from Suc.IH [OF r] obtain s' q' where
    "updateValue_times (getNextSample (Suc n)) (Suc k) p s1 = ret () s'"
    "param_at s' p = Some q'" "getValue q' = v + 1 + real k"
    "ramp_setup s' p g valueP stepP (v + 1 + real (Suc k))" by blast
  moreover have "v + 1 + real k = v + real (Suc k)" "v + 1 + real (Suc k) = v + real (Suc (Suc k))"
    by simp_all
  ultimately show ?case using u by (simp del: of_nat_Suc)
qed

text \<open>
  Claim C3. A parameter patched to a TrivialGenerator with \<open>value = 0\<close> and \<open>step = 1\<close>,
  neither of them patched: the call number \<open>k\<close> of \<open>updateValue()\<close>, counted from 0,
  returns and leaves \<open>getValue() = k\<close>, and the generator's \<open>value\<close> at \<open>k + 1\<close>: each call
  has advanced the generator once. \<open>updateValue()\<close> of a parameter with no patch leaves the
  store as it is.
\<close>
theorem patched_parameter_reads_ramp:
  assumes "ramp_setup s p g valueP stepP 0"
  shows "(\<exists>s' q'. updateValue_times (getNextSample (Suc n)) (Suc k) p s = ret () s' \<and>
            param_at s' p = Some q' \<and> getValue q' = real k \<and>
            ramp_setup s' p g valueP stepP (real (Suc k))) \<and>
         (\<forall>t r q. param_at t r = Some q \<and> p_input q = None
            \<longrightarrow> updateValue (getNextSample n) r t = ret () t)"
proof
  from ramp_times [OF assms, of n k]
  show "\<exists>s' q'. updateValue_times (getNextSample (Suc n)) (Suc k) p s = ret () s' \<and>
            param_at s' p = Some q' \<and> getValue q' = real k \<and>
            ramp_setup s' p g valueP stepP (real (Suc k))" by simp
next
  show "\<forall>t r q. param_at t r = Some q \<and> p_input q = None
            \<longrightarrow> updateValue (getNextSample n) r t = ret () t"
    by (auto intro: updateValue_unpatched)
qed

section \<open>The first example store\<close>

lemma example_param_2: "param_at example_synth 2 = Some \<lparr>p_owner = None, p_input = Some 0, p_data = 0\<rparr>"
  by (simp add: param_at_def example_synth_def)

lemma example_module_1:
  "module_at example_synth 1 =
     Some \<lparr>inputs = [0], outputs = [], parameters = [],
           data = (ModuleControlData_of 48000)\<lparr>oversampling := 2\<rparr>, kind = GenericOutput\<rparr>"
  by (simp add: module_at_def example_synth_def)

lemma example_module_2:
  "module_at example_synth 2 =
     Some \<lparr>inputs = [], outputs = [], parameters = [],
           data = ModuleControlData_default, kind = GenericOutput\<rparr>"
  by (simp add: module_at_def example_synth_def)

theorem assign_clears_patch_witness:
  "param_at example_synth 2 = Some \<lparr>p_owner = None, p_input = Some 0, p_data = 0\<rparr> \<and>
   (\<exists>s' q'. assign_at 2 7 example_synth = ret () s' \<and> param_at s' 2 = Some q' \<and>
           getValue q' = 7 \<and> p_input q' = None \<and>
           (\<forall>n k. updateValue_times (getNextSample n) k 2 s' = ret () s'))"
proof (rule conjI)
  show h: "param_at example_synth 2 = Some \<lparr>p_owner = None, p_input = Some 0, p_data = 0\<rparr>"
    by (rule example_param_2)
  show "\<exists>s' q'. assign_at 2 7 example_synth = ret () s' \<and> param_at s' 2 = Some q' \<and>
           getValue q' = 7 \<and> p_input q' = None \<and>
           (\<forall>n k. updateValue_times (getNextSample n) k 2 s' = ret () s')"
    using h by (rule assign_clears_patch)
qed

theorem connect_parameter_frame_witness:
  "param_at example_synth 2 = Some \<lparr>p_owner = None, p_input = Some 0, p_data = 0\<rparr> \<and>
   connect_parameter 1 2 example_synth =
     ret () (example_synth\<lparr>params :=
        [\<lparr>p_owner = Some 0, p_input = None, p_data = 0\<rparr>,
         \<lparr>p_owner = Some 0, p_input = None, p_data = 1\<rparr>,
         \<lparr>p_owner = None, p_input = Some 1, p_data = 0\<rparr>]\<rparr>)"
proof (rule conjI)
  show h: "param_at example_synth 2 = Some \<lparr>p_owner = None, p_input = Some 0, p_data = 0\<rparr>"
    by (rule example_param_2)
  from connect_parameter_frame [OF h, of 1] obtain s' where
    c: "connect_parameter 1 2 example_synth = ret () s'" and
    m: "modules s' = modules example_synth" and
    p: "params s' = (params example_synth)
          [2 := \<lparr>p_owner = None, p_input = Some 0, p_data = 0\<rparr>\<lparr>p_input := Some 1\<rparr>]"
    by blast
  have "s' = example_synth\<lparr>params :=
        [\<lparr>p_owner = Some 0, p_input = None, p_data = 0\<rparr>,
         \<lparr>p_owner = Some 0, p_input = None, p_data = 1\<rparr>,
         \<lparr>p_owner = None, p_input = Some 1, p_data = 0\<rparr>]\<rparr>"
    using m p by (simp add: example_synth_def)
  with c show "connect_parameter 1 2 example_synth =
     ret () (example_synth\<lparr>params :=
        [\<lparr>p_owner = Some 0, p_input = None, p_data = 0\<rparr>,
         \<lparr>p_owner = Some 0, p_input = None, p_data = 1\<rparr>,
         \<lparr>p_owner = None, p_input = Some 1, p_data = 0\<rparr>]\<rparr>)" by simp
qed

theorem setData_marks_initialized_witness:
  "module_at example_synth 2 =
     Some \<lparr>inputs = [], outputs = [], parameters = [],
           data = ModuleControlData_default, kind = GenericOutput\<rparr> \<and>
   (\<exists>s' d'. setData \<lparr>initialized = False, sampleRate = 44100, oversampling = 4\<rparr> 2 example_synth
              = ret () s' \<and>
            getData 2 s' = ret d' s' \<and> initialized d' = True \<and>
            sampleRate d' = sampleRate \<lparr>initialized = False, sampleRate = 44100, oversampling = 4\<rparr> \<and>
            oversampling d' = oversampling \<lparr>initialized = False, sampleRate = 44100, oversampling = 4\<rparr>)"
proof (rule conjI)
  show h: "module_at example_synth 2 =
     Some \<lparr>inputs = [], outputs = [], parameters = [],
           data = ModuleControlData_default, kind = GenericOutput\<rparr>"
    by (rule example_module_2)
  show "\<exists>s' d'. setData \<lparr>initialized = False, sampleRate = 44100, oversampling = 4\<rparr> 2 example_synth
              = ret () s' \<and>
            getData 2 s' = ret d' s' \<and> initialized d' = True \<and>
            sampleRate d' = sampleRate \<lparr>initialized = False, sampleRate = 44100, oversampling = 4\<rparr> \<and>
            oversampling d' = oversampling \<lparr>initialized = False, sampleRate = 44100, oversampling = 4\<rparr>"
    using h by (rule setData_marks_initialized)
qed

lemma example_ramp: "ramp_setup example_synth 2 0 0 1 0"
  by (simp add: ramp_setup_def param_at_def module_at_def example_synth_def)

theorem patched_parameter_reads_ramp_witness:
  "ramp_setup example_synth 2 0 0 1 0 \<and>
   (\<exists>s' q'. updateValue_times (getNextSample (Suc 0)) (Suc 3) 2 example_synth = ret () s' \<and>
            param_at s' 2 = Some q' \<and> getValue q' = real 3 \<and>
            ramp_setup s' 2 0 0 1 (real (Suc 3)))"
proof (rule conjI)
  show h: "ramp_setup example_synth 2 0 0 1 0" by (rule example_ramp)
  from patched_parameter_reads_ramp [OF h, of 0 3]
  show "\<exists>s' q'. updateValue_times (getNextSample (Suc 0)) (Suc 3) 2 example_synth = ret () s' \<and>
            param_at s' 2 = Some q' \<and> getValue q' = real 3 \<and>
            ramp_setup s' 2 0 0 1 (real (Suc 3))" by (rule conjunct1)
qed

lemma example_pulls:
  "pull_times (\<lambda>t. getNextSample (Suc 0) t 0) 2 example_synth =
     ret [0, 1] (put_param 0 \<lparr>p_owner = Some 0, p_input = None, p_data = 2\<rparr> example_synth)"
  by (simp add: numeral_2_eq_2 getNextSample_Suc TrivialGenerator_getNextSample_def
      updateValue_def read_data_def write_data_def getValue_def module_at_def param_at_def
      put_param_def example_synth_def)

lemma example_module_3:
  "module_at example_synth 3 =
     Some \<lparr>inputs = [0], outputs = [], parameters = [],
           data = (ModuleControlData_of 48000)\<lparr>oversampling := 0\<rparr>, kind = GenericOutput\<rparr>"
  by (simp add: module_at_def example_synth_def)

theorem GenericOutput_mean_of_pulls_witness:
  "module_at example_synth 1 =
     Some \<lparr>inputs = [0], outputs = [], parameters = [],
           data = (ModuleControlData_of 48000)\<lparr>oversampling := 2\<rparr>, kind = GenericOutput\<rparr> \<and>
   pull_times (\<lambda>t. getNextSample (Suc 0) t 0) 2 example_synth =
     ret [0, 1] (put_param 0 \<lparr>p_owner = Some 0, p_input = None, p_data = 2\<rparr> example_synth) \<and>
   getNextSample (Suc (Suc 0)) example_synth 1 =
     ret (1 / 2) (put_param 0 \<lparr>p_owner = Some 0, p_input = None, p_data = 2\<rparr> example_synth) \<and>
   getNextSample (Suc (Suc 0)) example_synth 2 = ret 0 example_synth \<and>
   getNextSample (Suc (Suc 0)) example_synth 3 = fault DivisionByZero"
proof -
  let ?m1 = "\<lparr>inputs = [0], outputs = [], parameters = [],
           data = (ModuleControlData_of 48000)\<lparr>oversampling := 2\<rparr>, kind = GenericOutput\<rparr>"
  let ?m2 = "\<lparr>inputs = [], outputs = [], parameters = [],
           data = ModuleControlData_default, kind = GenericOutput\<rparr>"
  let ?m3 = "\<lparr>inputs = [0], outputs = [], parameters = [],
           data = (ModuleControlData_of 48000)\<lparr>oversampling := 0\<rparr>, kind = GenericOutput\<rparr>"
  have p: "pull_times (\<lambda>t. getNextSample (Suc 0) t 0) 2 example_synth =
     ret [0, 1] (put_param 0 \<lparr>p_owner = Some 0, p_input = None, p_data = 2\<rparr> example_synth)"
    by (rule example_pulls)
  have k1: "kind ?m1 = GenericOutput" and k2: "kind ?m2 = GenericOutput"
    and k3: "kind ?m3 = GenericOutput" by simp_all
  have a: "getNextSample (Suc (Suc 0)) example_synth 1 =
     ret (1 / 2) (put_param 0 \<lparr>p_owner = Some 0, p_input = None, p_data = 2\<rparr> example_synth)"
    using GenericOutput_mean_of_pulls [OF example_module_1 k1, of "Suc 0"] p
    by (simp add: ModuleControlData_of_def)
  have b: "getNextSample (Suc (Suc 0)) example_synth 2 = ret 0 example_synth"
    using GenericOutput_mean_of_pulls [OF example_module_2 k2, of "Suc 0"] by simp
  have c: "getNextSample (Suc (Suc 0)) example_synth 3 = fault DivisionByZero"
    using GenericOutput_mean_of_pulls [OF example_module_3 k3, of "Suc 0"]
    by (simp add: ModuleControlData_of_def)
  show ?thesis using example_module_1 p a b c by simp
qed

section \<open>No call comes back to its caller\<close>

lemma framesD: "frames pull \<Longrightarrow> pull s j = ret x s' \<Longrightarrow> shape s' = shape s"
  by (auto simp: frames_def)

lemma shape_put_param:
  assumes "param_at s p = Some q" "p_owner q' = p_owner q" "p_input q' = p_input q"
  shows "shape (put_param p q' s) = shape s"
proof -
  from assms(1) have "p < length (params s)" "params s ! p = q" by (simp_all add: param_at_SomeD)
  then have "(map (\<lambda>q. (p_owner q, p_input q)) (params s))[p := (p_owner q', p_input q')]
      = map (\<lambda>q. (p_owner q, p_input q)) (params s)"
    using assms(2,3) by (simp add: list_update_same_conv)
  then show ?thesis by (simp add: shape_def put_param_def map_update)
qed

lemma shape_put_module:
  assumes "module_at s a = Some m" "module_shape m' = module_shape m"
  shows "shape (put_module a m' s) = shape s"
proof -
  from assms(1) have "a < length (modules s)" "modules s ! a = m" by (simp_all add: module_at_SomeD)
  then have "(map module_shape (modules s))[a := module_shape m'] = map module_shape (modules s)"
    using assms(2) by (simp add: list_update_same_conv)
  then show ?thesis by (simp add: shape_def put_module_def map_update)
qed

lemma write_data_shape:
  assumes "write_data p x s = ret u s'"
  shows "shape s' = shape s"
  using assms by (auto simp: write_data_def shape_put_param split: option.splits)

lemma read_data_same:
  assumes "read_data p s = ret x s'"
  shows "s' = s"
  using assms by (auto simp: read_data_def split: option.splits)

lemma updateValue_shape:
  assumes "frames pull" "updateValue pull p s = ret u s'"
  shows "shape s' = shape s"
proof (cases "param_at s p")
  case None
  then show ?thesis using assms(2) by (simp add: updateValue_def)
next
  case (Some q)
  show ?thesis
  proof (cases "p_input q")
    case None
    then show ?thesis using assms(2) Some by (simp add: updateValue_def)
  next
    case (Some i)
    with \<open>param_at s p = Some q\<close> assms(2)
    have "bindR (pull s i) (\<lambda>x s'. write_data p x s') = ret u s'" by (simp add: updateValue_def)
    then obtain x t where "pull s i = ret x t" "write_data p x t = ret u s'"
      by (auto dest: bindR_eq_retD)
    then show ?thesis using assms(1) by (simp add: framesD write_data_shape)
  qed
qed

lemma TrivialGenerator_shape:
  assumes "frames pull" "TrivialGenerator_getNextSample pull valueP stepP s = ret x s'"
  shows "shape s' = shape s"
proof -
  from assms(2) obtain u s1 where 1: "updateValue pull valueP s = ret u s1"
    and r1: "bindR (read_data valueP s1) (\<lambda>v _.
       bindR (read_data stepP s1) (\<lambda>d _.
       bindR (write_data valueP (v + d) s1) (\<lambda>_ s2.
       bindR (read_data valueP s2) (\<lambda>v' _.
       bindR (read_data stepP s2) (\<lambda>d' _.
         ret (v' - d') s2))))) = ret x s'"
    unfolding TrivialGenerator_getNextSample_def by (auto dest: bindR_eq_retD)
  from r1 obtain v t1 where "read_data valueP s1 = ret v t1"
    and r2: "bindR (read_data stepP s1) (\<lambda>d _.
       bindR (write_data valueP (v + d) s1) (\<lambda>_ s2.
       bindR (read_data valueP s2) (\<lambda>v' _.
       bindR (read_data stepP s2) (\<lambda>d' _.
         ret (v' - d') s2)))) = ret x s'"
    by (auto dest: bindR_eq_retD)
  from r2 obtain d t2 where "read_data stepP s1 = ret d t2"
    and r3: "bindR (write_data valueP (v + d) s1) (\<lambda>_ s2.
       bindR (read_data valueP s2) (\<lambda>v' _.
       bindR (read_data stepP s2) (\<lambda>d' _.
         ret (v' - d') s2))) = ret x s'"
    by (auto dest: bindR_eq_retD)
  from r3 obtain u2 s2 where 2: "write_data valueP (v + d) s1 = ret u2 s2"
    and r4: "bindR (read_data valueP s2) (\<lambda>v' _.
       bindR (read_data stepP s2) (\<lambda>d' _.
         ret (v' - d') s2)) = ret x s'"
    by (auto dest: bindR_eq_retD)
  from r4 obtain v' t3 where "read_data valueP s2 = ret v' t3"
    and r5: "bindR (read_data stepP s2) (\<lambda>d' _. ret (v' - d') s2) = ret x s'"
    by (auto dest: bindR_eq_retD)
  from r5 have "s' = s2" by (auto dest!: bindR_eq_retD)
  then show ?thesis
    using updateValue_shape [OF assms(1) 1] write_data_shape [OF 2] by simp
qed

lemma sumSamples_shape:
  assumes "\<And>s x s'. pull s = ret x s' \<Longrightarrow> shape s' = shape s"
    and "sumSamples pull k acc s = ret y s'"
  shows "shape s' = shape s"
  using assms(2)
proof (induction k arbitrary: acc s)
  case 0
  then show ?case by simp
next
  case (Suc k)
  then obtain x t where "pull s = ret x t" "sumSamples pull k (acc + x) t = ret y s'"
    by (auto dest: bindR_eq_retD)
  then show ?case using Suc.IH assms(1) by metis
qed

lemma GenericOutput_shape:
  assumes "frames pull" "GenericOutput_getNextSample pull m s = ret x s'"
  shows "shape s' = shape s"
proof (cases "length (inputs m) = 0")
  case True
  then show ?thesis using assms(2) by (simp add: GenericOutput_getNextSample_def)
next
  case False
  with assms(2) obtain acc t where
    "sumSamples (\<lambda>s'. pull s' (hd (inputs m))) (unat (oversampling (data m))) 0 s = ret acc t"
    and "(if oversampling (data m) = 0 then fault DivisionByZero
          else ret (acc / real (unat (oversampling (data m)))) t) = ret x s'"
    by (auto simp: GenericOutput_getNextSample_def dest!: bindR_eq_retD)
  moreover from this(2) have "s' = t" by (auto split: if_splits)
  ultimately show ?thesis
    using sumSamples_shape [of "\<lambda>s'. pull s' (hd (inputs m))"] assms(1) by (metis framesD)
qed

lemma FunctionModule_shape:
  assumes "frames pull" "FunctionModule_getNextSample pull m f s = ret x s'"
  shows "shape s' = shape s"
  using assms
  by (auto simp: FunctionModule_getNextSample_def split: if_splits dest!: bindR_eq_retD dest: framesD)

lemma FIRFilter_shape:
  assumes "frames pull" "FIRFilter_getNextSample pull a s = ret x s'"
  shows "shape s' = shape s"
proof -
  from assms(2) obtain m f where m: "module_at s a = Some m" "kind m = FIRFilterK f"
    by (auto simp: FIRFilter_getNextSample_def split: option.splits module_kind.splits)
  from assms(2) m obtain oldest hist where h: "inputSamples f = oldest # hist"
    by (auto simp: FIRFilter_getNextSample_def split: list.splits)
  from assms(2) m h obtain i rest where i: "inputs m = i # rest"
    by (auto simp: FIRFilter_getNextSample_def split: list.splits)
  let ?s1 = "put_module a (m\<lparr>kind := FIRFilterK (f\<lparr>inputSamples := hist\<rparr>)\<rparr>) s"
  have s1: "shape ?s1 = shape s"
    using m by (intro shape_put_module [OF m(1)]) (simp add: module_shape_def)
  from assms(2) m h i obtain y s2 where p: "pull ?s1 i = ret y s2"
    and r: "(case module_at s2 a of
               None \<Rightarrow> fault DanglingPointer
             | Some m2 \<Rightarrow>
                (case kind m2 of
                   FIRFilterK f2 \<Rightarrow>
                     (case dotLoop [0..<nat (coefCount f2)]
                             (inputSamples f2 @ [y]) (coefficients f2) 0 of
                        Inl e \<Rightarrow> fault e
                      | Inr y_n \<Rightarrow>
                          ret y_n
                            (put_module a
                               (m2\<lparr>kind := FIRFilterK
                                      (f2\<lparr>inputSamples := inputSamples f2 @ [y]\<rparr>)\<rparr>) s2))
                 | _ \<Rightarrow> fault DanglingPointer)) = ret x s'"
    by (auto simp: FIRFilter_getNextSample_def dest!: bindR_eq_retD)
  from r obtain m2 f2 where m2: "module_at s2 a = Some m2" "kind m2 = FIRFilterK f2"
    and s': "s' = put_module a (m2\<lparr>kind := FIRFilterK (f2\<lparr>inputSamples := inputSamples f2 @ [y]\<rparr>)\<rparr>) s2"
    by (auto split: option.splits module_kind.splits sum.splits)
  have "shape s' = shape s2"
    unfolding s' using m2 by (intro shape_put_module [OF m2(1)]) (simp add: module_shape_def)
  then show ?thesis using framesD [OF assms(1) p] s1 by simp
qed

lemma RCFilter_update_shape:
  assumes "frames pull" "RCFilter_update pull a breakpoint v1 s = ret x s'"
  shows "shape s' = shape s"
proof -
  from assms(2) obtain u s1 where 1: "updateValue pull breakpoint s = ret u s1"
    and r1: "bindR (read_data breakpoint s1) (\<lambda>b _.
       (case module_at s1 a of
          None \<Rightarrow> fault DanglingPointer
        | Some m1 \<Rightarrow>
           (case kind m1 of
              RCFilter v0 breakpoint' \<Rightarrow>
                if sampleRate (data m1) = 0 then fault DivisionByZero
                else
                  ret (v0 + (v1 - v0) * 2 * PI * b / sampleRate (data m1))
                    (put_module a
                       (m1\<lparr>kind := RCFilter
                             (v0 + (v1 - v0) * 2 * PI * b / sampleRate (data m1))
                             breakpoint'\<rparr>) s1)
            | _ \<Rightarrow> fault DanglingPointer))) = ret x s'"
    unfolding RCFilter_update_def by (auto dest: bindR_eq_retD)
  from r1 obtain b m1 v0 bp' where m1: "module_at s1 a = Some m1" "kind m1 = RCFilter v0 bp'"
    and s': "s' = put_module a (m1\<lparr>kind := RCFilter
                             (v0 + (v1 - v0) * 2 * PI * b / sampleRate (data m1)) bp'\<rparr>) s1"
    by (auto dest!: bindR_eq_retD split: option.splits module_kind.splits if_splits)
  have "shape s' = shape s1"
    unfolding s' using m1 by (intro shape_put_module [OF m1(1)]) (simp add: module_shape_def)
  then show ?thesis using updateValue_shape [OF assms(1) 1] by simp
qed

lemma RCFilter_shape:
  assumes "frames pull" "RCFilter_getNextSample pull a m breakpoint s = ret x s'"
  shows "shape s' = shape s"
proof (cases "length (inputs m) > 0")
  case True
  with assms(2) obtain v1 s1 where "pull s (hd (inputs m)) = ret v1 s1"
    "RCFilter_update pull a breakpoint v1 s1 = ret x s'"
    by (auto simp: RCFilter_getNextSample_def dest!: bindR_eq_retD)
  then show ?thesis using framesD [OF assms(1)] RCFilter_update_shape [OF assms(1)] by metis
next
  case False
  then show ?thesis using assms(2) by (simp add: RCFilter_getNextSample_def)
qed

lemma frames_getNextSample: "frames (getNextSample n)"
proof (induction n)
  case 0
  show ?case by (simp add: frames_def getNextSample_0 ret_def)
next
  case (Suc n)
  show ?case
    unfolding frames_def
  proof (intro allI impI)
    fix s j x s'
    assume r: "getNextSample (Suc n) s j = ret x s'"
    then obtain m where m: "module_at s j = Some m"
      by (auto simp: getNextSample_Suc split: option.splits)
    show "shape s' = shape s"
    proof (cases "kind m")
      case ModuleBase
      then show ?thesis using r m by (simp add: getNextSample_Suc)
    next
      case (TrivialGenerator valueP stepP)
      then show ?thesis using r m TrivialGenerator_shape [OF Suc] by (simp add: getNextSample_Suc)
    next
      case (FunctionModule f)
      then show ?thesis using r m FunctionModule_shape [OF Suc] by (simp add: getNextSample_Suc)
    next
      case GenericOutput
      then show ?thesis using r m GenericOutput_shape [OF Suc] by (simp add: getNextSample_Suc)
    next
      case (FIRFilterK f)
      then show ?thesis using r m FIRFilter_shape [OF Suc] by (simp add: getNextSample_Suc)
    next
      case (RCFilter v0 breakpoint)
      then show ?thesis using r m RCFilter_shape [OF Suc] by (simp add: getNextSample_Suc)
    qed
  qed
qed

lemma shape_module_at:
  assumes "shape t = shape s" "module_at s a = Some m"
  shows "\<exists>m'. module_at t a = Some m' \<and> module_shape m' = module_shape m"
proof -
  from assms(1) have eq: "map module_shape (modules t) = map module_shape (modules s)"
    by (simp add: shape_def)
  then have len: "length (modules t) = length (modules s)" by (rule map_eq_imp_length_eq)
  from assms(2) have a: "a < length (modules s)" "modules s ! a = m" by (simp_all add: module_at_SomeD)
  have "module_shape (modules t ! a) = module_shape (modules s ! a)"
    using eq a(1) len by (metis nth_map)
  then show ?thesis using a len by (simp add: module_at_def)
qed

lemma module_shape_fields:
  assumes "module_shape m' = module_shape m"
  shows "inputs m' = inputs m" "outputs m' = outputs m" "parameters m' = parameters m"
    "data m' = data m" "kind_shape (kind m') = kind_shape (kind m)"
proof -
  have "inputs (module_shape m') = inputs (module_shape m)" using assms by simp
  then show "inputs m' = inputs m" by (simp add: module_shape_def)
  have "outputs (module_shape m') = outputs (module_shape m)" using assms by simp
  then show "outputs m' = outputs m" by (simp add: module_shape_def)
  have "parameters (module_shape m') = parameters (module_shape m)" using assms by simp
  then show "parameters m' = parameters m" by (simp add: module_shape_def)
  have "data (module_shape m') = data (module_shape m)" using assms by simp
  then show "data m' = data m" by (simp add: module_shape_def)
  have "kind (module_shape m') = kind (module_shape m)" using assms by simp
  then show "kind_shape (kind m') = kind_shape (kind m)" by (simp add: module_shape_def)
qed

lemma getNextSample_frame:
  assumes "getNextSample n s a = ret x s'" "module_at s b = Some m"
  shows "\<exists>m'. module_at s' b = Some m' \<and> inputs m' = inputs m \<and> outputs m' = outputs m \<and>
           parameters m' = parameters m \<and> data m' = data m"
proof -
  have "shape s' = shape s" using frames_getNextSample assms(1) by (rule framesD)
  from shape_module_at [OF this assms(2)] show ?thesis by (auto dest: module_shape_fields)
qed

lemma shape_param_at:
  assumes "shape t = shape s" "param_at s p = Some q"
  shows "\<exists>q'. param_at t p = Some q' \<and> p_input q' = p_input q \<and> p_owner q' = p_owner q"
proof -
  from assms(1) have eq: "map (\<lambda>q. (p_owner q, p_input q)) (params t)
      = map (\<lambda>q. (p_owner q, p_input q)) (params s)" by (simp add: shape_def)
  then have len: "length (params t) = length (params s)" by (rule map_eq_imp_length_eq)
  from assms(2) have p: "p < length (params s)" "params s ! p = q" by (simp_all add: param_at_SomeD)
  have "map (\<lambda>q. (p_owner q, p_input q)) (params t) ! p
      = map (\<lambda>q. (p_owner q, p_input q)) (params s) ! p" by (simp only: eq)
  then have "(p_owner (params t ! p), p_input (params t ! p)) = (p_owner q, p_input q)"
    using p len by (simp only: nth_map)
  then have "p_owner (params t ! p) = p_owner q" "p_input (params t ! p) = p_input q"
    by simp_all
  moreover have "param_at t p = Some (params t ! p)" using p(1) len by (simp add: param_at_def)
  ultimately show ?thesis by simp
qed

lemma shape_param_at_None:
  assumes "shape t = shape s" "param_at s p = None"
  shows "param_at t p = None"
proof -
  from assms(1) have "map (\<lambda>q. (p_owner q, p_input q)) (params t) = map (\<lambda>q. (p_owner q, p_input q)) (params s)"
    by (simp add: shape_def)
  then have "length (params t) = length (params s)" by (rule map_eq_imp_length_eq)
  then show ?thesis using assms(2) by (simp add: param_at_def split: if_splits)
qed

lemma shape_module_at_None:
  assumes "shape t = shape s" "module_at s a = None"
  shows "module_at t a = None"
proof -
  from assms(1) have "map module_shape (modules t) = map module_shape (modules s)"
    by (simp add: shape_def)
  then have "length (modules t) = length (modules s)" by (rule map_eq_imp_length_eq)
  then show ?thesis using assms(2) by (simp add: module_at_def split: if_splits)
qed

lemma patch_shape:
  assumes "shape t = shape s"
  shows "patch t p = patch s p"
proof (cases "param_at s p")
  case None
  then show ?thesis using shape_param_at_None [OF assms] by (simp add: patch_def)
next
  case (Some q)
  from shape_param_at [OF assms Some] show ?thesis using Some by (auto simp: patch_def)
qed

lemma callees_shape:
  assumes "shape t = shape s"
  shows "callees t a = callees s a"
proof (cases "module_at s a")
  case None
  then show ?thesis using shape_module_at_None [OF assms] by (simp add: callees_def)
next
  case (Some m)
  from shape_module_at [OF assms Some] obtain m' where m': "module_at t a = Some m'"
    "module_shape m' = module_shape m" by blast
  from module_shape_fields [OF m'(2)] have i: "inputs m' = inputs m"
    and k: "kind_shape (kind m') = kind_shape (kind m)" by simp_all
  show ?thesis
    using Some m'(1) i k patch_shape [OF assms]
    by (cases "kind m"; cases "kind m'") (simp_all add: callees_def split: list.splits)
qed

lemma calls_shape:
  assumes "shape t = shape s"
  shows "calls t = calls s"
  unfolding calls_def callees_shape [OF assms] ..

lemma shallow_shape:
  assumes "shape t = shape s"
  shows "shallow n t a = shallow n s a"
proof (induction n arbitrary: a)
  case 0
  show ?case by simp
next
  case (Suc n)
  show ?case unfolding shallow.simps callees_shape [OF assms] list_all_iff using Suc by simp
qed

lemma shallow_mono: "shallow n s a \<Longrightarrow> shallow (Suc n) s a"
proof (induction n arbitrary: a)
  case 0
  then show ?case by simp
next
  case (Suc n)
  from Suc.prems have "\<forall>c \<in> set (callees s a). shallow n s c" by (simp add: list_all_iff)
  then have "\<forall>c \<in> set (callees s a). shallow (Suc n) s c" using Suc.IH by blast
  then show ?case by (simp only: shallow.simps(2) [of "Suc n"] list_all_iff)
qed

lemma shallow_callee:
  assumes "shallow n s a" "c \<in> set (callees s a)"
  shows "shallow n s c"
proof (cases n)
  case 0
  then show ?thesis using assms(1) by simp
next
  case (Suc k)
  with assms have "shallow k s c" by (simp add: list_all_iff)
  then have "shallow (Suc k) s c" by (rule shallow_mono)
  then show ?thesis using Suc by simp
qed

lemma shallow_reach:
  assumes "(a, b) \<in> (calls s)\<^sup>*" "shallow n s a"
  shows "shallow n s b"
  using assms
proof (induction rule: rtrancl_induct)
  case base
  then show ?case .
next
  case (step y z)
  from step.hyps(2) have "z \<in> set (callees s y)" by (simp add: calls_def)
  with step.IH [OF step.prems] show ?case by (rule shallow_callee)
qed

lemma no_cycle:
  assumes "shallow n s i" "(i, a) \<in> (calls s)\<^sup>*" "i \<in> set (callees s a)"
  shows False
  using assms(1)
proof (induction n)
  case 0
  then show ?case by simp
next
  case (Suc n)
  from shallow_reach [OF assms(2) Suc.prems] have "shallow (Suc n) s a" .
  then have "shallow n s i" using assms(3) by (simp add: list_all_iff)
  then show ?case by (rule Suc.IH)
qed

lemma soundD:
  assumes "sound n pull" "pull s j = ret x s'"
  shows "shape s' = shape s" "shallow n s j"
    "module_at s' b \<noteq> module_at s b \<Longrightarrow> (j, b) \<in> (calls s)\<^sup>*"
  using assms by (auto simp: sound_def)

lemma sound_frames: "sound n pull \<Longrightarrow> frames pull"
  by (auto simp: sound_def frames_def)

lemma callee_reach:
  assumes "c \<in> set (callees s a)" "(c, b) \<in> (calls s)\<^sup>*"
  shows "(a, b) \<in> (calls s)\<^sup>*"
proof -
  from assms(1) have "(a, c) \<in> calls s" by (simp add: calls_def)
  then show ?thesis using assms(2) by (rule converse_rtrancl_into_rtrancl)
qed

lemma write_data_modules:
  assumes "write_data p x s = ret u s'"
  shows "module_at s' b = module_at s b"
  using assms by (auto simp: write_data_def split: option.splits)

lemma updateValue_sound:
  assumes "sound n pull" "updateValue pull p s = ret u s'"
  shows "list_all (shallow n s) (patch s p)"
    and "module_at s' b \<noteq> module_at s b \<Longrightarrow> \<exists>j \<in> set (patch s p). (j, b) \<in> (calls s)\<^sup>*"
proof -
  from assms(2) obtain q where q: "param_at s p = Some q"
    by (auto simp: updateValue_def split: option.splits)
  have "list_all (shallow n s) (patch s p) \<and>
    (module_at s' b \<noteq> module_at s b \<longrightarrow> (\<exists>j \<in> set (patch s p). (j, b) \<in> (calls s)\<^sup>*))"
  proof (cases "p_input q")
    case None
    then show ?thesis using assms(2) q by (simp add: updateValue_def patch_def)
  next
    case (Some i)
    with q assms(2) have "bindR (pull s i) (\<lambda>x s'. write_data p x s') = ret u s'"
      by (simp add: updateValue_def)
    then obtain x t where pl: "pull s i = ret x t" and w: "write_data p x t = ret u s'"
      by (auto dest: bindR_eq_retD)
    have pt: "patch s p = [i]" using q Some by (simp add: patch_def)
    have "module_at s' b = module_at t b" using w by (rule write_data_modules)
    then show ?thesis using soundD(2,3) [OF assms(1) pl] pt by auto
  qed
  then show "list_all (shallow n s) (patch s p)"
    and "module_at s' b \<noteq> module_at s b \<Longrightarrow> \<exists>j \<in> set (patch s p). (j, b) \<in> (calls s)\<^sup>*"
    by simp_all
qed

lemma TrivialGenerator_decomp:
  assumes "TrivialGenerator_getNextSample pull valueP stepP s = ret x s'"
  shows "\<exists>u s1 y u2. updateValue pull valueP s = ret u s1 \<and> write_data valueP y s1 = ret u2 s'"
proof -
  from assms obtain u s1 where 1: "updateValue pull valueP s = ret u s1"
    and r1: "bindR (read_data valueP s1) (\<lambda>v _.
       bindR (read_data stepP s1) (\<lambda>d _.
       bindR (write_data valueP (v + d) s1) (\<lambda>_ s2.
       bindR (read_data valueP s2) (\<lambda>v' _.
       bindR (read_data stepP s2) (\<lambda>d' _.
         ret (v' - d') s2))))) = ret x s'"
    unfolding TrivialGenerator_getNextSample_def by (auto dest: bindR_eq_retD)
  from r1 obtain v t1 where "read_data valueP s1 = ret v t1"
    and r2: "bindR (read_data stepP s1) (\<lambda>d _.
       bindR (write_data valueP (v + d) s1) (\<lambda>_ s2.
       bindR (read_data valueP s2) (\<lambda>v' _.
       bindR (read_data stepP s2) (\<lambda>d' _.
         ret (v' - d') s2)))) = ret x s'"
    by (auto dest: bindR_eq_retD)
  from r2 obtain d t2 where "read_data stepP s1 = ret d t2"
    and r3: "bindR (write_data valueP (v + d) s1) (\<lambda>_ s2.
       bindR (read_data valueP s2) (\<lambda>v' _.
       bindR (read_data stepP s2) (\<lambda>d' _.
         ret (v' - d') s2))) = ret x s'"
    by (auto dest: bindR_eq_retD)
  from r3 obtain u2 s2 where 2: "write_data valueP (v + d) s1 = ret u2 s2"
    and r4: "bindR (read_data valueP s2) (\<lambda>v' _.
       bindR (read_data stepP s2) (\<lambda>d' _.
         ret (v' - d') s2)) = ret x s'"
    by (auto dest: bindR_eq_retD)
  from r4 obtain v' t3 where "read_data valueP s2 = ret v' t3"
    and r5: "bindR (read_data stepP s2) (\<lambda>d' _. ret (v' - d') s2) = ret x s'"
    by (auto dest: bindR_eq_retD)
  from r5 have "s' = s2" by (auto dest!: bindR_eq_retD)
  with 1 2 show ?thesis by blast
qed

lemma TrivialGenerator_sound:
  assumes "sound n pull" "module_at s a = Some m" "kind m = TrivialGenerator valueP stepP"
    and "TrivialGenerator_getNextSample pull valueP stepP s = ret x s'"
  shows "shallow (Suc n) s a"
    and "module_at s' b \<noteq> module_at s b \<Longrightarrow> (a, b) \<in> (calls s)\<^sup>*"
proof -
  from TrivialGenerator_decomp [OF assms(4)] obtain u s1 y u2 where
    1: "updateValue pull valueP s = ret u s1" and 2: "write_data valueP y s1 = ret u2 s'" by blast
  have c: "callees s a = patch s valueP" using assms(2,3) by (simp add: callees_def)
  show "shallow (Suc n) s a" using updateValue_sound(1) [OF assms(1) 1] c by simp
  assume "module_at s' b \<noteq> module_at s b"
  then have "module_at s1 b \<noteq> module_at s b" using write_data_modules [OF 2] by simp
  from updateValue_sound(2) [OF assms(1) 1 this] obtain j where
    "j \<in> set (patch s valueP)" "(j, b) \<in> (calls s)\<^sup>*" by blast
  then show "(a, b) \<in> (calls s)\<^sup>*" using c by (auto intro: callee_reach)
qed

lemma FunctionModule_sound:
  assumes "sound n pull" "module_at s a = Some m" "kind m = FunctionModule f"
    and "FunctionModule_getNextSample pull m f s = ret x s'"
  shows "shallow (Suc n) s a"
    and "module_at s' b \<noteq> module_at s b \<Longrightarrow> (a, b) \<in> (calls s)\<^sup>*"
proof -
  have "shallow (Suc n) s a \<and> (module_at s' b \<noteq> module_at s b \<longrightarrow> (a, b) \<in> (calls s)\<^sup>*)"
  proof (cases "inputs m")
    case Nil
    then show ?thesis using assms(2,3,4) by (simp add: FunctionModule_getNextSample_def callees_def)
  next
    case (Cons i rest)
    with assms(4) obtain v where p: "pull s i = ret v s'"
      by (auto simp: FunctionModule_getNextSample_def dest!: bindR_eq_retD)
    have c: "callees s a = [i]" using assms(2,3) Cons by (simp add: callees_def)
    then have "i \<in> set (callees s a)" by simp
    then show ?thesis using soundD(2,3) [OF assms(1) p] c by (auto intro: callee_reach)
  qed
  then show "shallow (Suc n) s a"
    and "module_at s' b \<noteq> module_at s b \<Longrightarrow> (a, b) \<in> (calls s)\<^sup>*" by simp_all
qed

lemma sumSamples_sound:
  assumes "sound n pull" "sumSamples (\<lambda>t. pull t i) k acc s = ret y s'"
  shows "shape s' = shape s \<and> (0 < k \<longrightarrow> shallow n s i) \<and>
         (module_at s' b \<noteq> module_at s b \<longrightarrow> (i, b) \<in> (calls s)\<^sup>*)"
  using assms(2)
proof (induction k arbitrary: acc s)
  case 0
  then show ?case by simp
next
  case (Suc k)
  then obtain x t where p: "pull s i = ret x t"
    and r: "sumSamples (\<lambda>t. pull t i) k (acc + x) t = ret y s'"
    by (auto dest: bindR_eq_retD)
  note st = soundD(1) [OF assms(1) p]
  from Suc.IH [OF r] have ih: "shape s' = shape t"
    "module_at s' b \<noteq> module_at t b \<longrightarrow> (i, b) \<in> (calls t)\<^sup>*" by simp_all
  have "module_at s' b \<noteq> module_at s b \<longrightarrow> (i, b) \<in> (calls s)\<^sup>*"
  proof
    assume d: "module_at s' b \<noteq> module_at s b"
    show "(i, b) \<in> (calls s)\<^sup>*"
    proof (cases "module_at t b = module_at s b")
      case True
      with d ih(2) have "(i, b) \<in> (calls t)\<^sup>*" by simp
      then show ?thesis by (simp only: calls_shape [OF st])
    next
      case False
      then show ?thesis by (rule soundD(3) [OF assms(1) p])
    qed
  qed
  then show ?case using ih(1) st soundD(2) [OF assms(1) p] by simp
qed

lemma GenericOutput_sound:
  assumes "sound n pull" "module_at s a = Some m" "kind m = GenericOutput"
    and "GenericOutput_getNextSample pull m s = ret x s'"
  shows "shallow (Suc n) s a"
    and "module_at s' b \<noteq> module_at s b \<Longrightarrow> (a, b) \<in> (calls s)\<^sup>*"
proof -
  have "shallow (Suc n) s a \<and> (module_at s' b \<noteq> module_at s b \<longrightarrow> (a, b) \<in> (calls s)\<^sup>*)"
  proof (cases "inputs m")
    case Nil
    then show ?thesis using assms(2,3,4) by (simp add: GenericOutput_getNextSample_def callees_def)
  next
    case (Cons i rest)
    with assms(4) obtain acc t where
      ss: "sumSamples (\<lambda>t. pull t i) (unat (oversampling (data m))) 0 s = ret acc t"
      and e: "(if oversampling (data m) = 0 then fault DivisionByZero
          else ret (acc / real (unat (oversampling (data m)))) t) = ret x s'"
      by (auto simp: GenericOutput_getNextSample_def dest!: bindR_eq_retD)
    from e have nz: "oversampling (data m) \<noteq> 0" and s': "s' = t" by (auto split: if_splits)
    from nz have pos: "0 < unat (oversampling (data m))" by (simp add: unat_gt_0)
    have c: "callees s a = [i]" using assms(2,3) Cons by (simp add: callees_def)
    then have "i \<in> set (callees s a)" by simp
    then show ?thesis using sumSamples_sound [OF assms(1) ss, of b] pos s' c
      by (auto intro: callee_reach)
  qed
  then show "shallow (Suc n) s a"
    and "module_at s' b \<noteq> module_at s b \<Longrightarrow> (a, b) \<in> (calls s)\<^sup>*" by simp_all
qed

lemma FIRFilter_decomp:
  assumes "FIRFilter_getNextSample pull a s = ret x s'"
  obtains m f oldest hist i rest y s2 m2 f2 where
    "module_at s a = Some m" "kind m = FIRFilterK f" "inputSamples f = oldest # hist"
    "inputs m = i # rest"
    "pull (put_module a (m\<lparr>kind := FIRFilterK (f\<lparr>inputSamples := hist\<rparr>)\<rparr>) s) i = ret y s2"
    "module_at s2 a = Some m2" "kind m2 = FIRFilterK f2"
    "s' = put_module a (m2\<lparr>kind := FIRFilterK (f2\<lparr>inputSamples := inputSamples f2 @ [y]\<rparr>)\<rparr>) s2"
proof -
  from assms obtain m f where m: "module_at s a = Some m" "kind m = FIRFilterK f"
    by (auto simp: FIRFilter_getNextSample_def split: option.splits module_kind.splits)
  from assms m obtain oldest hist where h: "inputSamples f = oldest # hist"
    by (auto simp: FIRFilter_getNextSample_def split: list.splits)
  from assms m h obtain i rest where i: "inputs m = i # rest"
    by (auto simp: FIRFilter_getNextSample_def split: list.splits)
  let ?s1 = "put_module a (m\<lparr>kind := FIRFilterK (f\<lparr>inputSamples := hist\<rparr>)\<rparr>) s"
  from assms m h i obtain y s2 where p: "pull ?s1 i = ret y s2"
    and r: "(case module_at s2 a of
               None \<Rightarrow> fault DanglingPointer
             | Some m2 \<Rightarrow>
                (case kind m2 of
                   FIRFilterK f2 \<Rightarrow>
                     (case dotLoop [0..<nat (coefCount f2)]
                             (inputSamples f2 @ [y]) (coefficients f2) 0 of
                        Inl e \<Rightarrow> fault e
                      | Inr y_n \<Rightarrow>
                          ret y_n
                            (put_module a
                               (m2\<lparr>kind := FIRFilterK
                                      (f2\<lparr>inputSamples := inputSamples f2 @ [y]\<rparr>)\<rparr>) s2))
                 | _ \<Rightarrow> fault DanglingPointer)) = ret x s'"
    by (auto simp: FIRFilter_getNextSample_def dest!: bindR_eq_retD)
  from r obtain m2 f2 where m2: "module_at s2 a = Some m2" "kind m2 = FIRFilterK f2"
    and s': "s' = put_module a (m2\<lparr>kind := FIRFilterK (f2\<lparr>inputSamples := inputSamples f2 @ [y]\<rparr>)\<rparr>) s2"
    by (auto split: option.splits module_kind.splits sum.splits)
  from m h i p m2 s' show ?thesis by (rule that)
qed

lemma FIRFilter_sound:
  assumes "sound n pull" and r: "FIRFilter_getNextSample pull a s = ret x s'"
  shows "shallow (Suc n) s a"
    and "module_at s' b \<noteq> module_at s b \<Longrightarrow> (a, b) \<in> (calls s)\<^sup>*"
proof -
  from r obtain m f oldest hist i rest y s2 m2 f2 where
    m: "module_at s a = Some m" "kind m = FIRFilterK f" and i: "inputs m = i # rest"
    and p: "pull (put_module a (m\<lparr>kind := FIRFilterK (f\<lparr>inputSamples := hist\<rparr>)\<rparr>) s) i = ret y s2"
    and s': "s' = put_module a (m2\<lparr>kind := FIRFilterK (f2\<lparr>inputSamples := inputSamples f2 @ [y]\<rparr>)\<rparr>) s2"
    by (rule FIRFilter_decomp)
  let ?s1 = "put_module a (m\<lparr>kind := FIRFilterK (f\<lparr>inputSamples := hist\<rparr>)\<rparr>) s"
  have s1: "shape ?s1 = shape s"
    using m by (intro shape_put_module [OF m(1)]) (simp add: module_shape_def)
  have c: "callees s a = [i]" using m i by (simp add: callees_def)
  have "shallow n ?s1 i" using assms(1) p by (rule soundD(2))
  then have "shallow n s i" by (simp only: shallow_shape [OF s1])
  then show "shallow (Suc n) s a" using c by simp
  assume d: "module_at s' b \<noteq> module_at s b"
  show "(a, b) \<in> (calls s)\<^sup>*"
  proof (cases "b = a")
    case True
    then show ?thesis by simp
  next
    case False
    then have "module_at s' b = module_at s2 b" "module_at ?s1 b = module_at s b"
      unfolding s' by simp_all
    with d have "module_at s2 b \<noteq> module_at ?s1 b" by simp
    then have "(i, b) \<in> (calls ?s1)\<^sup>*" by (rule soundD(3) [OF assms(1) p])
    then have "(i, b) \<in> (calls s)\<^sup>*" by (simp only: calls_shape [OF s1])
    then show ?thesis using c by (auto intro: callee_reach)
  qed
qed

lemma RCFilter_update_decomp:
  assumes "RCFilter_update pull a breakpoint v1 s = ret x s'"
  obtains u s1 b m1 v0 bp' where
    "updateValue pull breakpoint s = ret u s1" "read_data breakpoint s1 = ret b s1"
    "module_at s1 a = Some m1" "kind m1 = RCFilter v0 bp'" "sampleRate (data m1) \<noteq> 0"
    "x = v0 + (v1 - v0) * 2 * PI * b / sampleRate (data m1)"
    "s' = put_module a (m1\<lparr>kind := RCFilter x bp'\<rparr>) s1"
proof -
  from assms obtain u s1 where 1: "updateValue pull breakpoint s = ret u s1"
    and r1: "bindR (read_data breakpoint s1) (\<lambda>b _.
       (case module_at s1 a of
          None \<Rightarrow> fault DanglingPointer
        | Some m1 \<Rightarrow>
           (case kind m1 of
              RCFilter v0 breakpoint' \<Rightarrow>
                if sampleRate (data m1) = 0 then fault DivisionByZero
                else
                  ret (v0 + (v1 - v0) * 2 * PI * b / sampleRate (data m1))
                    (put_module a
                       (m1\<lparr>kind := RCFilter
                             (v0 + (v1 - v0) * 2 * PI * b / sampleRate (data m1))
                             breakpoint'\<rparr>) s1)
            | _ \<Rightarrow> fault DanglingPointer))) = ret x s'"
    unfolding RCFilter_update_def by (auto dest: bindR_eq_retD)
  from r1 obtain b t where rd: "read_data breakpoint s1 = ret b t"
    and r2: "(case module_at s1 a of
          None \<Rightarrow> fault DanglingPointer
        | Some m1 \<Rightarrow>
           (case kind m1 of
              RCFilter v0 breakpoint' \<Rightarrow>
                if sampleRate (data m1) = 0 then fault DivisionByZero
                else
                  ret (v0 + (v1 - v0) * 2 * PI * b / sampleRate (data m1))
                    (put_module a
                       (m1\<lparr>kind := RCFilter
                             (v0 + (v1 - v0) * 2 * PI * b / sampleRate (data m1))
                             breakpoint'\<rparr>) s1)
            | _ \<Rightarrow> fault DanglingPointer)) = ret x s'"
    by (auto dest: bindR_eq_retD)
  from rd have rd': "read_data breakpoint s1 = ret b s1" using read_data_same by blast
  from r2 obtain m1 v0 bp' where m1: "module_at s1 a = Some m1" "kind m1 = RCFilter v0 bp'"
    "sampleRate (data m1) \<noteq> 0" "x = v0 + (v1 - v0) * 2 * PI * b / sampleRate (data m1)"
    "s' = put_module a (m1\<lparr>kind := RCFilter x bp'\<rparr>) s1"
    by (auto split: option.splits module_kind.splits if_splits)
  from 1 rd' m1 show ?thesis by (rule that)
qed

lemma RCFilter_sound:
  assumes "sound n pull" "module_at s a = Some m" "kind m = RCFilter v0 breakpoint"
    and r: "RCFilter_getNextSample pull a m breakpoint s = ret x s'"
  shows "shallow (Suc n) s a"
    and "module_at s' b \<noteq> module_at s b \<Longrightarrow> (a, b) \<in> (calls s)\<^sup>*"
proof -
  have "shallow (Suc n) s a \<and> (module_at s' b \<noteq> module_at s b \<longrightarrow> (a, b) \<in> (calls s)\<^sup>*)"
  proof (cases "inputs m")
    case Nil
    then show ?thesis using assms(2,3) r by (simp add: RCFilter_getNextSample_def callees_def)
  next
    case (Cons i rest)
    with r obtain v1 s1 where p: "pull s i = ret v1 s1"
      and up: "RCFilter_update pull a breakpoint v1 s1 = ret x s'"
      by (auto simp: RCFilter_getNextSample_def dest!: bindR_eq_retD)
    from up obtain u s2 m1 bp' where 1: "updateValue pull breakpoint s1 = ret u s2"
      and s': "s' = put_module a (m1\<lparr>kind := RCFilter x bp'\<rparr>) s2"
      by (rule RCFilter_update_decomp)
    note st = soundD(1) [OF assms(1) p]
    have c: "callees s a = i # patch s breakpoint" using assms(2,3) Cons by (simp add: callees_def)
    have pt: "patch s1 breakpoint = patch s breakpoint" using st by (rule patch_shape)
    have "list_all (shallow n s1) (patch s1 breakpoint)"
      using assms(1) 1 by (rule updateValue_sound(1))
    moreover have "shallow n s1 = shallow n s" by (rule ext) (rule shallow_shape [OF st])
    ultimately have "list_all (shallow n s) (patch s breakpoint)"
      unfolding pt by simp
    then have sh: "shallow (Suc n) s a" using soundD(2) [OF assms(1) p] c by simp
    have "(a, b) \<in> (calls s)\<^sup>*" if d: "module_at s' b \<noteq> module_at s b"
    proof (cases "b = a")
      case True
      then show ?thesis by simp
    next
      case False
      then have e: "module_at s' b = module_at s2 b" unfolding s' by simp
      show ?thesis
      proof (cases "module_at s2 b = module_at s1 b")
        case True
        with d e have "module_at s1 b \<noteq> module_at s b" by simp
        then have "(i, b) \<in> (calls s)\<^sup>*" by (rule soundD(3) [OF assms(1) p])
        then show ?thesis using c by (auto intro: callee_reach)
      next
        case False
        from updateValue_sound(2) [OF assms(1) 1 False] obtain j where
          j: "j \<in> set (patch s1 breakpoint)" "(j, b) \<in> (calls s1)\<^sup>*" by blast
        from j(2) have "(j, b) \<in> (calls s)\<^sup>*" by (simp only: calls_shape [OF st])
        moreover from j(1) have "j \<in> set (callees s a)" using c pt by simp
        ultimately show ?thesis by (auto intro: callee_reach)
      qed
    qed
    with sh show ?thesis by simp
  qed
  then show "shallow (Suc n) s a"
    and "module_at s' b \<noteq> module_at s b \<Longrightarrow> (a, b) \<in> (calls s)\<^sup>*" by simp_all
qed

lemma sound_getNextSample: "sound n (getNextSample n)"
proof (induction n)
  case 0
  show ?case by (simp add: sound_def getNextSample_0 ret_def)
next
  case (Suc n)
  show ?case
    unfolding sound_def
  proof (intro allI impI conjI)
    fix s j x s'
    assume r: "getNextSample (Suc n) s j = ret x s'"
    show "shape s' = shape s" using frames_getNextSample r by (rule framesD)
    from r obtain m where m: "module_at s j = Some m"
      by (auto simp: getNextSample_Suc split: option.splits)
    have "shallow (Suc n) s j \<and> (\<forall>b. module_at s' b \<noteq> module_at s b \<longrightarrow> (j, b) \<in> (calls s)\<^sup>*)"
    proof (cases "kind m")
      case ModuleBase
      then show ?thesis using r m by (simp add: getNextSample_Suc callees_def)
    next
      case (TrivialGenerator valueP stepP)
      with r m have "TrivialGenerator_getNextSample (getNextSample n) valueP stepP s = ret x s'"
        by (simp add: getNextSample_Suc)
      from TrivialGenerator_sound [OF Suc m TrivialGenerator this] show ?thesis by blast
    next
      case (FunctionModule f)
      with r m have "FunctionModule_getNextSample (getNextSample n) m f s = ret x s'"
        by (simp add: getNextSample_Suc)
      from FunctionModule_sound [OF Suc m FunctionModule this] show ?thesis by blast
    next
      case GenericOutput
      with r m have "GenericOutput_getNextSample (getNextSample n) m s = ret x s'"
        by (simp add: getNextSample_Suc)
      from GenericOutput_sound [OF Suc m GenericOutput this] show ?thesis by blast
    next
      case (FIRFilterK f)
      with r m have "FIRFilter_getNextSample (getNextSample n) j s = ret x s'"
        by (simp add: getNextSample_Suc)
      from FIRFilter_sound [OF Suc this] show ?thesis by blast
    next
      case (RCFilter v0 breakpoint)
      with r m have "RCFilter_getNextSample (getNextSample n) j m breakpoint s = ret x s'"
        by (simp add: getNextSample_Suc)
      from RCFilter_sound [OF Suc m RCFilter this] show ?thesis by blast
    qed
    then show "shallow (Suc n) s j"
      and "\<And>b. module_at s' b \<noteq> module_at s b \<Longrightarrow> (j, b) \<in> (calls s)\<^sup>*" by simp_all
  qed
qed

lemma pull_leaves_caller:
  assumes "getNextSample n s j = ret x s'" "j \<in> set (callees s a)"
  shows "module_at s' a = module_at s a"
proof (rule ccontr)
  assume "module_at s' a \<noteq> module_at s a"
  then have "(j, a) \<in> (calls s)\<^sup>*" by (rule soundD(3) [OF sound_getNextSample assms(1)])
  moreover have "shallow n s j" using sound_getNextSample assms(1) by (rule soundD(2))
  ultimately show False using assms(2) by (intro no_cycle)
qed

section \<open>The filters\<close>

lemma dotLoop_append:
  "dotLoop (is @ js) xs cs y =
     (case dotLoop is xs cs y of Inl e \<Rightarrow> Inl e | Inr y' \<Rightarrow> dotLoop js xs cs y')"
  by (induction "is" arbitrary: y) simp_all

lemma dotLoop_sum:
  assumes "N \<le> length xs" "N \<le> length cs"
  shows "dotLoop [0..<N] xs cs y = Inr (y + (\<Sum>j<N. xs ! j * cs ! j))"
  using assms by (induction N) (simp_all add: dotLoop_append add.assoc)

lemma sint_nonneg:
  fixes w :: "32 word"
  assumes "0 \<le> sint w"
  shows "sint w = uint w"
proof -
  from assms have nb: "\<not> bit (uint w) 31" by (simp add: sint_uint)
  have "take_bit 32 (uint w) = uint w"
    using uint_lt2p [of w] by (intro take_bit_int_eq_self) simp_all
  moreover have "take_bit (Suc 31) (uint w) = 2 ^ 31 * of_bool (bit (uint w) 31) + take_bit 31 (uint w)"
    by (rule take_bit_Suc_from_most)
  ultimately have "take_bit 31 (uint w) = uint w" using nb by simp
  moreover have "signed_take_bit 31 (uint w) = take_bit 31 (uint w)"
    using nb by (rule signed_take_bit_eq_if_positive)
  ultimately show ?thesis by (simp add: sint_uint)
qed

lemma odd_uint_iff: "odd (uint (w :: 32 word)) \<longleftrightarrow> odd w"
  by (metis even_of_int_iff word_of_int_uint)

lemma sdiv_2_pos: "0 < (n::int) \<Longrightarrow> n sdiv 2 = n div 2"
  by (simp add: signed_divide_int_def)

lemma sdiv_2_neg: "0 < (n::int) \<Longrightarrow> (- n) sdiv 2 = - (n div 2)"
  by (simp add: signed_divide_int_def)

lemma FIRFilter_setup_result:
  assumes "FIRFilter_setup filterTypeArg coefficientCount f0 = Inr f1"
  shows "0 < coefCount f1" "odd (coefCount f1)"
    "inputSamples f1 = replicate (nat (coefCount f1)) 0"
    "filterType f1 = filterType f0"
proof -
  define c' where "c' = (if coefficientCount mod 2 = 0 then coefficientCount + 1 else coefficientCount)"
  have oc: "odd c'"
  proof (cases "coefficientCount mod 2 = 0")
    case True
    then have "even coefficientCount" by (simp add: even_iff_mod_2_eq_zero)
    then have "odd (coefficientCount + 1)" by simp
    then show ?thesis using True by (simp add: c'_def)
  next
    case False
    then have "odd coefficientCount" by (simp add: even_iff_mod_2_eq_zero)
    then show ?thesis using False by (simp add: c'_def)
  qed
  from assms have nn: "0 \<le> sint c'"
    and f1: "f1 = f0\<lparr>coefCount := sint c', inputSamples := replicate (nat (sint c')) 0\<rparr>"
    by (auto simp: FIRFilter_setup_def Let_def c'_def split: if_splits)
  from nn have "sint c' = uint c'" by (rule sint_nonneg)
  then have "odd (sint c')" using oc by (simp add: odd_uint_iff)
  then show "odd (coefCount f1)" by (simp add: f1)
  then have "coefCount f1 \<noteq> 0" by auto
  then show "0 < coefCount f1" using nn by (simp add: f1)
  show "inputSamples f1 = replicate (nat (coefCount f1)) 0" by (simp add: f1)
  show "filterType f1 = filterType f0" by (simp add: f1)
qed

lemma modulateLoop_length:
  "modulateLoop is cs = Inr cs' \<Longrightarrow> length cs' = length cs"
  by (induction "is" arbitrary: cs) (auto split: if_splits)

lemma FIRFilter_setCutoff_result:
  assumes "filterType f1 \<noteq> USER_DEFINED" "FIRFilter_setCutoff sampleRate' cutoff f1 = Inr f"
  shows "coefCount f = coefCount f1" "inputSamples f = inputSamples f1"
    "length (coefficients f) = nat (coefCount f1 sdiv 2 - (- coefCount f1) sdiv 2 + 1)"
proof -
  let ?lo = "(- coefCount f1) sdiv 2" and ?hi = "coefCount f1 sdiv 2"
  from assms obtain cs where f: "f = f1\<lparr>coefficients := cs\<rparr>" and l: "length cs = length [?lo..?hi]"
    by (auto simp: FIRFilter_setCutoff_def Let_def split: if_splits sum.splits
        dest: modulateLoop_length)
  show "coefCount f = coefCount f1" "inputSamples f = inputSamples f1" by (simp_all add: f)
  show "length (coefficients f) = nat (coefCount f1 sdiv 2 - (- coefCount f1) sdiv 2 + 1)"
    using l by (simp add: f)
qed

lemma sint_of_nat_small:
  assumes "n < 2 ^ 31"
  shows "sint (word_of_nat n :: 32 word) = int n"
proof -
  have "n < 2 ^ LENGTH(32)" using assms by simp
  then have u: "unat (word_of_nat n :: 32 word) = n" by (simp add: unat_of_nat)
  then have "unat (word_of_nat n :: 32 word) < 2 ^ 31" using assms by simp
  then have "sint (word_of_nat n :: 32 word) = int (unat (word_of_nat n :: 32 word))"
    by (rule sint_small)
  then show ?thesis by (simp only: u)
qed

lemma set_up_with_configured:
  assumes "set_up_with N f"
  shows "FIR_configured N f"
  using assms
proof (induction rule: set_up_with.induct)
  case (by_coefficients cs f0 f)
  from by_coefficients(2) have "sint (word_of_nat (length cs) :: 32 word) = int (length cs)"
    by (rule sint_of_nat_small)
  with by_coefficients(1,3) show ?case
    by (auto simp: FIRFilter_setup_coefficients_def FIR_configured_def Let_def)
next
  case (by_cutoff f0 filterTypeArg coefficientCount f1 sampleRate' cutoff f)
  note s = FIRFilter_setup_result [OF by_cutoff(2)]
  from s(4) by_cutoff(1) have "filterType f1 \<noteq> USER_DEFINED" by simp
  note c = FIRFilter_setCutoff_result [OF this by_cutoff(3)]
  from s(2) obtain k where k: "coefCount f1 = 2 * k + 1" by (auto elim: oddE)
  with s(1) have k0: "0 \<le> k" by simp
  have "coefCount f1 div 2 = k" using k by simp
  then have "coefCount f1 sdiv 2 = k" "(- coefCount f1) sdiv 2 = - k"
    using sdiv_2_pos [OF s(1)] sdiv_2_neg [OF s(1)] by simp_all
  then have "length (coefficients f) = nat (coefCount f1)" using c(3) k k0 by simp
  then show ?case using s c by (simp add: FIR_configured_def)
next
  case (after_sample N f x)
  then show ?case by (cases "inputSamples f") (auto simp: FIR_configured_def)
qed

text \<open>
  Claim C4, amended. A FIRFilter that has been set up with \<open>N\<close> coefficients (by
  \<open>setup(coefficients)\<close> with \<open>N \<ge> 1\<close> coefficients, or by \<open>setup(filterType, count)\<close>
  followed by \<open>setCutoff\<close>) and has an input \<open>i\<close>: getNextSample drops the oldest of the
  \<open>N\<close> stored samples, pulls \<open>i\<close> once, appends the sample \<open>x\<close> it got, and returns the
  sum over \<open>j < N\<close> of \<open>history[j] * coefficients[j]\<close> for the new history; the history has
  \<open>N\<close> samples before the call and after it, and the filter is left set up with \<open>N\<close>
  coefficients, so the same holds of every later call.
\<close>
theorem FIRFilter_sliding_window:
  assumes "module_at s a = Some m" and "kind m = FIRFilterK f" and "inputs m = i # rest"
    and "set_up_with N f"
    and "getNextSample n
           (put_module a (m\<lparr>kind := FIRFilterK (f\<lparr>inputSamples := tl (inputSamples f)\<rparr>)\<rparr>) s) i
         = ret x s2"
  shows "getNextSample (Suc n) s a =
           ret (\<Sum>j<N. (tl (inputSamples f) @ [x]) ! j * coefficients f ! j)
             (put_module a
                (m\<lparr>kind := FIRFilterK (f\<lparr>inputSamples := tl (inputSamples f) @ [x]\<rparr>)\<rparr>) s2)
         \<and> length (inputSamples f) = N
         \<and> length (tl (inputSamples f) @ [x]) = N
         \<and> set_up_with N (f\<lparr>inputSamples := tl (inputSamples f) @ [x]\<rparr>)"
proof -
  let ?m1 = "m\<lparr>kind := FIRFilterK (f\<lparr>inputSamples := tl (inputSamples f)\<rparr>)\<rparr>"
  let ?s1 = "put_module a ?m1 s"
  from assms(4) have "FIR_configured N f" by (rule set_up_with_configured)
  then have N: "0 < N" "coefCount f = int N" "length (coefficients f) = N"
    "length (inputSamples f) = N" by (simp_all add: FIR_configured_def)
  then obtain oldest hist where h: "inputSamples f = oldest # hist"
    by (cases "inputSamples f") auto
  from assms(1) have len: "a < length (modules s)" by (simp add: module_at_SomeD)
  then have m1: "module_at ?s1 a = Some ?m1" by simp
  then have "callees ?s1 a = [i]" using assms(3) by (simp add: callees_def)
  then have "i \<in> set (callees ?s1 a)" by simp
  with assms(5) have "module_at s2 a = module_at ?s1 a" by (rule pull_leaves_caller)
  then have u: "module_at s2 a = Some ?m1" using m1 by simp
  have lh: "length (hist @ [x]) = N" using N(4) h by simp
  have d: "dotLoop [0..<nat (coefCount f)] (hist @ [x]) (coefficients f) 0
      = Inr (\<Sum>j<N. (hist @ [x]) ! j * coefficients f ! j)"
    using dotLoop_sum [of N "hist @ [x]" "coefficients f" 0] lh N(2,3) by simp
  have "getNextSample (Suc n) s a =
           ret (\<Sum>j<N. (hist @ [x]) ! j * coefficients f ! j)
             (put_module a (m\<lparr>kind := FIRFilterK (f\<lparr>inputSamples := hist @ [x]\<rparr>)\<rparr>) s2)"
    using assms(1,2,3,5) u h d
    by (simp add: getNextSample_Suc FIRFilter_getNextSample_def)
  moreover have "set_up_with N (f\<lparr>inputSamples := tl (inputSamples f) @ [x]\<rparr>)"
    using assms(4) by (rule set_up_with.after_sample)
  ultimately show ?thesis using h N lh by simp
qed

text \<open>
  Claim C5. An RCFilter with an input \<open>i\<close> and a sample rate that is not 0: getNextSample
  pulls one sample \<open>v1\<close> from \<open>i\<close>, then updates \<open>breakpoint\<close> (one pull of the module
  patched into it, when there is one, whose sample \<open>b\<close> becomes the value of
  \<open>breakpoint\<close>; no pull otherwise), then adds \<open>(v1 - _v0) * 2 * PI * b / sampleRate\<close> to
  \<open>_v0\<close>, and returns the new \<open>_v0\<close>.
\<close>
theorem RCFilter_one_pole_step:
  assumes "module_at s a = Some m" and "kind m = RCFilter v0 breakpoint" and "inputs m = i # rest"
    and "sampleRate (data m) \<noteq> 0"
    and "getNextSample n s i = ret v1 s1"
    and "updateValue (getNextSample n) breakpoint s1 = ret () s2"
  shows "\<exists>q1 b. param_at s1 breakpoint = Some q1 \<and> read_data breakpoint s2 = ret b s2 \<and>
           (case p_input q1 of
              None \<Rightarrow> s2 = s1
            | Some j \<Rightarrow> (\<exists>t. getNextSample n s1 j = ret b t \<and>
                              write_data breakpoint b t = ret () s2)) \<and>
           getNextSample (Suc n) s a =
             ret (v0 + (v1 - v0) * 2 * PI * b / sampleRate (data m))
               (put_module a
                  (m\<lparr>kind := RCFilter (v0 + (v1 - v0) * 2 * PI * b / sampleRate (data m))
                                 breakpoint\<rparr>) s2)"
proof -
  have c: "callees s a = i # patch s breakpoint" using assms(1,2,3) by (simp add: callees_def)
  then have "i \<in> set (callees s a)" by simp
  with assms(5) have "module_at s1 a = module_at s a" by (rule pull_leaves_caller)
  then have m1: "module_at s1 a = Some m" using assms(1) by simp
  from assms(6) obtain q1 where q1: "param_at s1 breakpoint = Some q1"
    by (auto simp: updateValue_def split: option.splits)
  have "\<exists>b. read_data breakpoint s2 = ret b s2 \<and> module_at s2 a = Some m \<and>
          (case p_input q1 of
              None \<Rightarrow> s2 = s1
            | Some j \<Rightarrow> (\<exists>t. getNextSample n s1 j = ret b t \<and>
                              write_data breakpoint b t = ret () s2))"
  proof (cases "p_input q1")
    case None
    then have "s2 = s1" using assms(6) q1 by (simp add: updateValue_def)
    then show ?thesis using None q1 m1 by (simp add: read_data_def)
  next
    case (Some j)
    with q1 assms(6) have "bindR (getNextSample n s1 j) (\<lambda>x s'. write_data breakpoint x s') = ret () s2"
      by (simp add: updateValue_def)
    then obtain y t where p: "getNextSample n s1 j = ret y t"
      and w: "write_data breakpoint y t = ret () s2" by (auto dest: bindR_eq_retD)
    have "callees s1 a = i # patch s1 breakpoint" using m1 assms(2,3) by (simp add: callees_def)
    moreover have "patch s1 breakpoint = [j]" using q1 Some by (simp add: patch_def)
    ultimately have "j \<in> set (callees s1 a)" by simp
    with p have "module_at t a = module_at s1 a" by (rule pull_leaves_caller)
    then have ma: "module_at s2 a = Some m" using write_data_modules [OF w] m1 by simp
    from w obtain q' where q': "param_at t breakpoint = Some q'"
      and s2: "s2 = put_param breakpoint (q'\<lparr>p_data := y\<rparr>) t"
      by (auto simp: write_data_def split: option.splits)
    from q' have "breakpoint < length (params t)" by (simp add: param_at_SomeD)
    then have "read_data breakpoint s2 = ret y s2"
      unfolding s2 by (simp add: read_data_def getValue_def)
    then show ?thesis using Some p w ma by auto
  qed
  then obtain b where rd: "read_data breakpoint s2 = ret b s2" and ma: "module_at s2 a = Some m"
    and cs: "(case p_input q1 of
              None \<Rightarrow> s2 = s1
            | Some j \<Rightarrow> (\<exists>t. getNextSample n s1 j = ret b t \<and>
                              write_data breakpoint b t = ret () s2))" by blast
  have "getNextSample (Suc n) s a =
             ret (v0 + (v1 - v0) * 2 * PI * b / sampleRate (data m))
               (put_module a
                  (m\<lparr>kind := RCFilter (v0 + (v1 - v0) * 2 * PI * b / sampleRate (data m))
                                 breakpoint\<rparr>) s2)"
    using assms rd ma
    by (simp add: getNextSample_Suc RCFilter_getNextSample_def RCFilter_update_def)
  with q1 rd cs show ?thesis by blast
qed

lemma example_filters_module_2:
  "module_at example_filters 2 =
     Some \<lparr>inputs = [0], outputs = [], parameters = [],
           data = ModuleControlData_of 48000,
           kind = FIRFilterK \<lparr>filterType = USER_DEFINED, coefCount = 3,
                              coefficients = [1, 2, 3], inputSamples = [0, 0, 0]\<rparr>\<rparr>"
  by (simp add: module_at_def example_filters_def)

lemma example_filters_module_1:
  "module_at example_filters 1 =
     Some \<lparr>inputs = [0], outputs = [], parameters = [2],
           data = ModuleControlData_of 48000, kind = RCFilter 0 2\<rparr>"
  by (simp add: module_at_def example_filters_def)

lemma sum_lessThan_3: "(\<Sum>j<(3::nat). g j) = g 0 + g 1 + (g 2 :: real)"
  by (simp add: numeral_3_eq_3 numeral_2_eq_2 lessThan_Suc)

lemma setup_coefficients_example:
  "FIRFilter_setup_coefficients [1, 2, 3] FIRFilter_init =
     Inr \<lparr>filterType = USER_DEFINED, coefCount = 3,
          coefficients = [1, 2, 3], inputSamples = [0, 0, 0]\<rparr>"
proof -
  have z: "replicate 3 (0 :: real) = [0, 0, 0]" by (simp add: numeral_3_eq_3)
  show ?thesis by (simp add: FIRFilter_setup_coefficients_def FIRFilter_init_def z)
qed

lemma set_up_with_example:
  "set_up_with 3 \<lparr>filterType = USER_DEFINED, coefCount = 3,
                   coefficients = [1, 2, 3], inputSamples = [0, 0, 0]\<rparr>"
proof -
  have "[1, 2, 3 :: real] \<noteq> []" by simp
  moreover have "length [1, 2, 3 :: real] < 2 ^ 31" by simp
  ultimately have "set_up_with (length [1, 2, 3 :: real])
      \<lparr>filterType = USER_DEFINED, coefCount = 3,
       coefficients = [1, 2, 3], inputSamples = [0, 0, 0]\<rparr>"
    using setup_coefficients_example by (rule set_up_with.by_coefficients)
  then show ?thesis by (simp add: numeral_3_eq_3)
qed

theorem FIRFilter_sliding_window_witness:
  "module_at example_filters 2 =
     Some \<lparr>inputs = [0], outputs = [], parameters = [],
           data = ModuleControlData_of 48000,
           kind = FIRFilterK \<lparr>filterType = USER_DEFINED, coefCount = 3,
                              coefficients = [1, 2, 3], inputSamples = [0, 0, 0]\<rparr>\<rparr> \<and>
   FIRFilter_setup_coefficients [1, 2, 3] FIRFilter_init =
     Inr \<lparr>filterType = USER_DEFINED, coefCount = 3,
          coefficients = [1, 2, 3], inputSamples = [0, 0, 0]\<rparr> \<and>
   set_up_with 3 \<lparr>filterType = USER_DEFINED, coefCount = 3,
                   coefficients = [1, 2, 3], inputSamples = [0, 0, 0]\<rparr> \<and>
   getNextSample (Suc (Suc 0)) example_filters 2 =
     ret 15
       (example_filters
          \<lparr>modules := (modules example_filters)
             [2 := \<lparr>inputs = [0], outputs = [], parameters = [],
                    data = ModuleControlData_of 48000,
                    kind = FIRFilterK \<lparr>filterType = USER_DEFINED, coefCount = 3,
                                       coefficients = [1, 2, 3], inputSamples = [0, 0, 5]\<rparr>\<rparr>],
           params := (params example_filters)
             [0 := \<lparr>p_owner = Some 0, p_input = None, p_data = 7\<rparr>]\<rparr>)"
proof -
  let ?f = "\<lparr>filterType = USER_DEFINED, coefCount = 3,
             coefficients = [1, 2, 3], inputSamples = [0, 0, 0 :: real]\<rparr>"
  let ?m = "\<lparr>inputs = [0], outputs = [], parameters = [],
             data = ModuleControlData_of 48000, kind = FIRFilterK ?f\<rparr>"
  let ?m1 = "?m\<lparr>kind := FIRFilterK (?f\<lparr>inputSamples := tl (inputSamples ?f)\<rparr>)\<rparr>"
  let ?s1 = "put_module 2 ?m1 example_filters"
  let ?s2 = "put_param 0 \<lparr>p_owner = Some 0, p_input = None, p_data = 7\<rparr> ?s1"
  have k: "kind ?m = FIRFilterK ?f" and i: "inputs ?m = 0 # []" by simp_all
  have p: "getNextSample (Suc 0) ?s1 0 = ret 5 ?s2"
    by (simp add: getNextSample_Suc TrivialGenerator_getNextSample_def updateValue_def
        read_data_def write_data_def getValue_def module_at_def param_at_def put_param_def
        put_module_def example_filters_def)
  have "getNextSample (Suc (Suc 0)) example_filters 2 =
      ret (\<Sum>j<3. (tl (inputSamples ?f) @ [5]) ! j * coefficients ?f ! j)
        (put_module 2 (?m\<lparr>kind := FIRFilterK (?f\<lparr>inputSamples := tl (inputSamples ?f) @ [5]\<rparr>)\<rparr>) ?s2)"
    using FIRFilter_sliding_window [OF example_filters_module_2 k i set_up_with_example p]
    by (rule conjunct1)
  then have "getNextSample (Suc (Suc 0)) example_filters 2 =
     ret 15
       (example_filters
          \<lparr>modules := (modules example_filters)
             [2 := \<lparr>inputs = [0], outputs = [], parameters = [],
                    data = ModuleControlData_of 48000,
                    kind = FIRFilterK \<lparr>filterType = USER_DEFINED, coefCount = 3,
                                       coefficients = [1, 2, 3], inputSamples = [0, 0, 5]\<rparr>\<rparr>],
           params := (params example_filters)
             [0 := \<lparr>p_owner = Some 0, p_input = None, p_data = 7\<rparr>]\<rparr>)"
    by (simp add: sum_lessThan_3 put_module_def put_param_def example_filters_def)
  then show ?thesis
    using example_filters_module_2 setup_coefficients_example set_up_with_example by simp
qed

text \<open>
  Claim C4 as stated ("every FIRFilter that has been set up with coefficient count N")
  fails after \<open>setup(LOW_PASS, 3)\<close> alone: the history holds 3 zeros, \<open>_coefficients\<close> is
  still empty, and the first pull reads \<open>_coefficients[0]\<close>.
\<close>
theorem FIRFilter_without_cutoff_counterexample:
  "FIRFilter_setup LOW_PASS 3 FIRFilter_init =
     Inr \<lparr>filterType = LOW_PASS, coefCount = 3, coefficients = [], inputSamples = [0, 0, 0]\<rparr> \<and>
   module_at example_unfinished 1 =
     Some \<lparr>inputs = [0], outputs = [], parameters = [],
           data = ModuleControlData_of 48000,
           kind = FIRFilterK \<lparr>filterType = LOW_PASS, coefCount = 3,
                              coefficients = [], inputSamples = [0, 0, 0]\<rparr>\<rparr> \<and>
   getNextSample (Suc 0) example_unfinished 0 =
     ret 5 (put_param 0 \<lparr>p_owner = Some 0, p_input = None, p_data = 7\<rparr> example_unfinished) \<and>
   getNextSample (Suc (Suc 0)) example_unfinished 1 = fault IndexOutOfRange"
proof -
  have z: "replicate 3 (0 :: real) = [0, 0, 0]" by (simp add: numeral_3_eq_3)
  have a: "FIRFilter_setup LOW_PASS 3 FIRFilter_init =
     Inr \<lparr>filterType = LOW_PASS, coefCount = 3, coefficients = [], inputSamples = [0, 0, 0]\<rparr>"
    by (simp add: FIRFilter_setup_def FIRFilter_init_def z)
  have b: "module_at example_unfinished 1 =
     Some \<lparr>inputs = [0], outputs = [], parameters = [],
           data = ModuleControlData_of 48000,
           kind = FIRFilterK \<lparr>filterType = LOW_PASS, coefCount = 3,
                              coefficients = [], inputSamples = [0, 0, 0]\<rparr>\<rparr>"
    by (simp add: module_at_def example_unfinished_def)
  have c: "getNextSample (Suc 0) example_unfinished 0 =
     ret 5 (put_param 0 \<lparr>p_owner = Some 0, p_input = None, p_data = 7\<rparr> example_unfinished)"
    by (simp add: getNextSample_Suc TrivialGenerator_getNextSample_def updateValue_def
        read_data_def write_data_def getValue_def module_at_def param_at_def put_param_def
        example_unfinished_def)
  have d: "getNextSample (Suc (Suc 0)) example_unfinished 1 = fault IndexOutOfRange"
    by (simp add: getNextSample_Suc FIRFilter_getNextSample_def
        TrivialGenerator_getNextSample_def updateValue_def
        read_data_def write_data_def getValue_def module_at_def param_at_def put_param_def
        put_module_def example_unfinished_def upt_conv_Cons)
  show ?thesis using a b c d by simp
qed

theorem RCFilter_one_pole_step_witness:
  "module_at example_filters 1 =
     Some \<lparr>inputs = [0], outputs = [], parameters = [2],
           data = ModuleControlData_of 48000, kind = RCFilter 0 2\<rparr> \<and>
   getNextSample (Suc 0) example_filters 0 =
     ret 5 (put_param 0 \<lparr>p_owner = Some 0, p_input = None, p_data = 7\<rparr> example_filters) \<and>
   getNextSample (Suc (Suc 0)) example_filters 1 =
     ret (7 * PI / 4800)
       (example_filters
          \<lparr>modules := (modules example_filters)
             [1 := \<lparr>inputs = [0], outputs = [], parameters = [2],
                    data = ModuleControlData_of 48000, kind = RCFilter (7 * PI / 4800) 2\<rparr>],
           params :=
             [\<lparr>p_owner = Some 0, p_input = None, p_data = 9\<rparr>,
              \<lparr>p_owner = Some 0, p_input = None, p_data = 2\<rparr>,
              \<lparr>p_owner = Some 1, p_input = Some 0, p_data = 7\<rparr>]\<rparr>)"
proof -
  let ?m = "\<lparr>inputs = [0], outputs = [], parameters = [2],
             data = ModuleControlData_of 48000, kind = RCFilter 0 2\<rparr>"
  let ?s1 = "put_param 0 \<lparr>p_owner = Some 0, p_input = None, p_data = 7\<rparr> example_filters"
  let ?q2 = "\<lparr>p_owner = Some 1, p_input = Some 0, p_data = 7\<rparr>"
  let ?s2 = "put_param 2 ?q2
               (put_param 0 \<lparr>p_owner = Some 0, p_input = None, p_data = 9\<rparr> ?s1)"
  have k: "kind ?m = RCFilter 0 2" and i: "inputs ?m = 0 # []" by simp_all
  have sr: "sampleRate (data ?m) \<noteq> 0" by (simp add: ModuleControlData_of_def)
  have p: "getNextSample (Suc 0) example_filters 0 = ret 5 ?s1"
    by (simp add: getNextSample_Suc TrivialGenerator_getNextSample_def updateValue_def
        read_data_def write_data_def getValue_def module_at_def param_at_def put_param_def
        example_filters_def)
  have u: "updateValue (getNextSample (Suc 0)) 2 ?s1 = ret () ?s2"
    by (simp add: getNextSample_Suc TrivialGenerator_getNextSample_def updateValue_def
        read_data_def write_data_def getValue_def module_at_def param_at_def put_param_def
        example_filters_def)
  have rd: "read_data 2 ?s2 = ret 7 ?s2"
    by (simp add: read_data_def getValue_def param_at_def put_param_def example_filters_def)
  from RCFilter_one_pole_step [OF example_filters_module_1 k i sr p u] obtain b where
    b: "read_data 2 ?s2 = ret b ?s2" and
    g: "getNextSample (Suc (Suc 0)) example_filters 1 =
      ret (0 + (5 - 0) * 2 * PI * b / sampleRate (data ?m))
        (put_module 1
           (?m\<lparr>kind := RCFilter (0 + (5 - 0) * 2 * PI * b / sampleRate (data ?m)) 2\<rparr>) ?s2)"
    by blast
  from b rd have "b = 7" by simp
  with g have "getNextSample (Suc (Suc 0)) example_filters 1 =
     ret (7 * PI / 4800)
       (example_filters
          \<lparr>modules := (modules example_filters)
             [1 := \<lparr>inputs = [0], outputs = [], parameters = [2],
                    data = ModuleControlData_of 48000, kind = RCFilter (7 * PI / 4800) 2\<rparr>],
           params :=
             [\<lparr>p_owner = Some 0, p_input = None, p_data = 9\<rparr>,
              \<lparr>p_owner = Some 0, p_input = None, p_data = 2\<rparr>,
              \<lparr>p_owner = Some 1, p_input = Some 0, p_data = 7\<rparr>]\<rparr>)"
    by (simp add: ModuleControlData_of_def put_module_def put_param_def example_filters_def)
  then show ?thesis using example_filters_module_1 p by simp
qed

section \<open>A FIRFilter with no input, and the high-pass kernel\<close>

text \<open>
  Claim C1 says that every module with no input connected behaves as if its input were
  constantly 0. A FIRFilter after \<open>setup({1, 2, 3})\<close> with no input does not: getNextSample
  calls \<open>_inputs.front()\<close> on the empty vector, at every call depth.
\<close>
theorem FIRFilter_unconnected_faults:
  "FIRFilter_setup_coefficients [1, 2, 3] FIRFilter_init =
     Inr \<lparr>filterType = USER_DEFINED, coefCount = 3,
          coefficients = [1, 2, 3], inputSamples = [0, 0, 0]\<rparr> \<and>
   module_at example_filters 3 =
     Some \<lparr>inputs = [], outputs = [], parameters = [],
           data = ModuleControlData_of 48000,
           kind = FIRFilterK \<lparr>filterType = USER_DEFINED, coefCount = 3,
                              coefficients = [1, 2, 3], inputSamples = [0, 0, 0]\<rparr>\<rparr> \<and>
   getNextSample (Suc n) example_filters 3 = fault FrontOfEmptyVector"
proof -
  have z: "replicate 3 (0 :: real) = [0, 0, 0]" by (simp add: numeral_3_eq_3)
  show ?thesis
    by (simp add: FIRFilter_setup_coefficients_def FIRFilter_init_def z getNextSample_Suc
        FIRFilter_getNextSample_def module_at_def example_filters_def)
qed

text \<open>
  Claim C2 says that a FIRFilter set up as HIGH_PASS gets the low-pass kernel with
  alternating signs from setCutoff, all indices within bounds. \<open>setup(HIGH_PASS, 3)\<close>
  leaves \<open>_filterType\<close> at LOW_PASS, and \<open>setCutoff(12000)\<close> at 48000 Hz then gives the
  low-pass kernel \<open>[1/pi, 1/2, 1/pi]\<close> itself (with alternating signs it would be
  \<open>[-1/pi, 1/2, -1/pi]\<close>). With \<open>_filterType\<close> at HIGH_PASS, the second loop of setCutoff
  starts at the index \<open>-1\<close> of the vector.
\<close>
theorem setCutoff_after_HIGH_PASS_setup:
  "FIRFilter_setup HIGH_PASS 3 FIRFilter_init =
     Inr \<lparr>filterType = LOW_PASS, coefCount = 3, coefficients = [], inputSamples = [0, 0, 0]\<rparr> \<and>
   FIRFilter_setCutoff 48000 12000
       \<lparr>filterType = LOW_PASS, coefCount = 3, coefficients = [], inputSamples = [0, 0, 0]\<rparr> =
     Inr \<lparr>filterType = LOW_PASS, coefCount = 3,
          coefficients = [1 / pi, 1 / 2, 1 / pi], inputSamples = [0, 0, 0]\<rparr> \<and>
   FIRFilter_setCutoff 48000 12000
       \<lparr>filterType = HIGH_PASS, coefCount = 3, coefficients = [], inputSamples = [0, 0, 0]\<rparr> =
     Inl IndexOutOfRange"
proof -
  have r: "[- 1 .. 1 :: int] = [- 1, 0, 1]" by (simp add: upto.simps)
  have z: "replicate 3 (0 :: real) = [0, 0, 0]" by (simp add: numeral_3_eq_3)
  have a: "FIRFilter_setup HIGH_PASS 3 FIRFilter_init =
     Inr \<lparr>filterType = LOW_PASS, coefCount = 3, coefficients = [], inputSamples = [0, 0, 0]\<rparr>"
    by (simp add: FIRFilter_setup_def FIRFilter_init_def z)
  have d: "(- 3 :: int) sdiv 2 = - 1" "(3 :: int) sdiv 2 = 1"
    by (simp_all add: signed_divide_int_def)
  have b: "FIRFilter_setCutoff 48000 12000
       \<lparr>filterType = LOW_PASS, coefCount = 3, coefficients = [], inputSamples = [0, 0, 0]\<rparr> =
     Inr \<lparr>filterType = LOW_PASS, coefCount = 3,
          coefficients = [1 / pi, 1 / 2, 1 / pi], inputSamples = [0, 0, 0]\<rparr>"
    by (simp add: FIRFilter_setCutoff_def d r calcH_def sinc_def PI_def)
  have c: "FIRFilter_setCutoff 48000 12000
       \<lparr>filterType = HIGH_PASS, coefCount = 3, coefficients = [], inputSamples = [0, 0, 0]\<rparr> =
     Inl IndexOutOfRange"
    by (simp add: FIRFilter_setCutoff_def d r)
  show ?thesis using a b c by simp
qed

end
